theory Spec2Isabelle
  imports Main "HOL-Library.Word"
begin

section \<open>Go strings\<close>

text \<open>
  A Go string is a sequence of bytes; \<open>string\<close> (a \<open>char list\<close>, one \<open>char\<close> per byte) is
  the same thing. The functions of Go's \<open>strings\<close> package that the source calls are
  written out here on bytes. White space is what \<open>unicode.IsSpace\<close> accepts: the six
  ASCII characters and, in UTF-8, U+0085, U+00A0, U+1680, U+2000 to U+200A, U+2028,
  U+2029, U+202F, U+205F and U+3000.
\<close>

definition asciiSpace :: "char \<Rightarrow> bool" where
  "asciiSpace c \<longleftrightarrow>
     c = CHR 0x09 \<or> c = CHR 0x0A \<or> c = CHR 0x0B \<or> c = CHR 0x0C \<or> c = CHR 0x0D \<or> c = CHR 0x20"

text \<open>The number of bytes of the white-space rune a string starts with; 0 when it starts
  with none.\<close>

definition spaceWidth :: "string \<Rightarrow> nat" where
  "spaceWidth s =
     (case s of
        [] \<Rightarrow> 0
      | c # cs \<Rightarrow>
          if asciiSpace c then 1
          else if c = CHR 0xC2 then
            (case cs of
               d # _ \<Rightarrow> if d = CHR 0x85 \<or> d = CHR 0xA0 then 2 else 0
             | [] \<Rightarrow> 0)
          else if c = CHR 0xE1 then
            (if take 2 cs = [CHR 0x9A, CHR 0x80] then 3 else 0)
          else if c = CHR 0xE2 then
            (case cs of
               d # e # _ \<Rightarrow>
                 if d = CHR 0x80 \<and>
                    ((128::nat) \<le> of_char e \<and> (of_char e :: nat) \<le> 138
                     \<or> e = CHR 0xA8 \<or> e = CHR 0xA9 \<or> e = CHR 0xAF) then 3
                 else if d = CHR 0x81 \<and> e = CHR 0x9F then 3
                 else 0
             | _ \<Rightarrow> 0)
          else if c = CHR 0xE3 then
            (if take 2 cs = [CHR 0x80, CHR 0x80] then 3 else 0)
          else 0)"

text \<open>The same, read from the end of the string: the argument is the reversed string.\<close>

definition spaceWidthRev :: "string \<Rightarrow> nat" where
  "spaceWidthRev r =
     (if spaceWidth (rev (take 1 r)) = 1 then 1
      else if spaceWidth (rev (take 2 r)) = 2 then 2
      else if spaceWidth (rev (take 3 r)) = 3 then 3
      else 0)"

subsection \<open>strings.Split with the separator "\textbackslash n"\<close>

fun splitLines :: "string \<Rightarrow> string \<Rightarrow> string list" where
  "splitLines cur [] = [cur]"
| "splitLines cur (c # cs) =
     (if c = CHR 0x0A then cur # splitLines [] cs else splitLines (cur @ [c]) cs)"

definition strings_Split_nl :: "string \<Rightarrow> string list" where
  "strings_Split_nl s = splitLines [] s"

subsection \<open>strings.Fields\<close>

definition flushField :: "string \<Rightarrow> string list" where
  "flushField cur = (if cur = [] then [] else [cur])"

function fieldsFrom :: "string \<Rightarrow> string \<Rightarrow> string list" where
  "fieldsFrom cur [] = flushField cur"
| "fieldsFrom cur (c # cs) =
     (if spaceWidth (c # cs) = 0 then fieldsFrom (cur @ [c]) cs
      else flushField cur @ fieldsFrom [] (drop (spaceWidth (c # cs) - 1) cs))"
  by pat_completeness auto
termination
  by (relation "measure (\<lambda>(cur, s). length s)") auto

definition strings_Fields :: "string \<Rightarrow> string list" where
  "strings_Fields s = fieldsFrom [] s"

subsection \<open>strings.TrimSpace\<close>

fun trimLeftSpace :: "string \<Rightarrow> string" where
  "trimLeftSpace [] = []"
| "trimLeftSpace (c # cs) =
     (if spaceWidth (c # cs) = 0 then c # cs
      else trimLeftSpace (drop (spaceWidth (c # cs) - 1) cs))"

fun trimLeftSpaceRev :: "string \<Rightarrow> string" where
  "trimLeftSpaceRev [] = []"
| "trimLeftSpaceRev (c # cs) =
     (if spaceWidthRev (c # cs) = 0 then c # cs
      else trimLeftSpaceRev (drop (spaceWidthRev (c # cs) - 1) cs))"

definition strings_TrimSpace :: "string \<Rightarrow> string" where
  "strings_TrimSpace s = rev (trimLeftSpaceRev (rev (trimLeftSpace s)))"

subsection \<open>strings.Contains\<close>

fun isPrefix :: "string \<Rightarrow> string \<Rightarrow> bool" where
  "isPrefix [] s = True"
| "isPrefix (p # ps) [] = False"
| "isPrefix (p # ps) (c # cs) = (p = c \<and> isPrefix ps cs)"

fun strings_Contains :: "string \<Rightarrow> string \<Rightarrow> bool" where
  "strings_Contains [] sub = (sub = [])"
| "strings_Contains (c # cs) sub = (isPrefix sub (c # cs) \<or> strings_Contains cs sub)"

section \<open>The host: commands, signals and locks\<close>

text \<open>
  The teardown functions run external commands through \<open>util.ExecCommandOutput\<close>, send
  signals with \<open>syscall.Kill\<close> and take three process-wide mutexes. Each of these is an
  event; a function of the model takes the events so far and returns them extended. What
  a command prints and whether it fails is the host's answer, which may depend on
  everything that happened before (an unmount that fails once and works after a kill).
  \<open>ExecCommandOutput\<close> returns the output, the exit code and the error (\<open>None\<close> is
  Go's \<open>nil\<close>).
\<close>

datatype mutex = mountMutex | umountMutex | staleDeviceRemovalMutex

datatype event = Lock mutex | Unlock mutex | Exec string "string list" | Kill int

record host =
  ExecCommandOutput :: "event list \<Rightarrow> string \<Rightarrow> string list \<Rightarrow> string \<times> int \<times> string option"
  syscall_Kill :: "event list \<Rightarrow> int \<Rightarrow> string option"

text \<open>What a call that returns only an \<open>error\<close> does: return \<open>nil\<close>, return an error (its
  message), or panic.\<close>

datatype outcome = Success | Failure string | Panicked

section \<open>Mount points of a multipath device\<close>

text \<open>The loop of \<open>findMountPointsOfMultipathDevice\<close> over the lines of the mount table.\<close>

fun mountPointsLoop :: "string \<Rightarrow> string list \<Rightarrow> string list \<Rightarrow> string list" where
  "mountPointsLoop multipathDevice [] mountPoints = mountPoints"
| "mountPointsLoop multipathDevice (line # mountLines) mountPoints =
     (let entry = strings_Fields line in
      if length entry > 3 then
        (if strings_Contains (entry ! 0) multipathDevice
         then mountPointsLoop multipathDevice mountLines (mountPoints @ [entry ! 2])
         else mountPointsLoop multipathDevice mountLines mountPoints)
      else mountPointsLoop multipathDevice mountLines mountPoints)"

text \<open>The function returns the pair \<open>(mountPoints, err)\<close>; a \<open>nil\<close> slice is the empty
  list. The deferred unlock runs on every return.\<close>

definition findMountPointsOfMultipathDevice ::
  "host \<Rightarrow> string \<Rightarrow> event list \<Rightarrow> (string list \<times> string option) \<times> event list" where
  "findMountPointsOfMultipathDevice h multipathDevice tr =
     (let tr1 = tr @ [Lock mountMutex];
          (out, rc, err) = ExecCommandOutput h tr1 ''mount'' [];
          tr2 = tr1 @ [Exec ''mount'' []]
      in case err of
           Some e \<Rightarrow> (([], Some e), tr2 @ [Unlock mountMutex])
         | None \<Rightarrow>
             ((mountPointsLoop multipathDevice (strings_Split_nl out) [], None),
              tr2 @ [Unlock mountMutex]))"

section \<open>strconv.Atoi\<close>

text \<open>
  \<open>strconv.Atoi\<close> accepts an optional sign followed by at least one decimal digit and
  fails on anything else, and on a value outside the 64-bit \<open>int\<close>. \<open>None\<close> is the
  error.
\<close>

fun digitsValue :: "int \<Rightarrow> string \<Rightarrow> int option" where
  "digitsValue n [] = Some n"
| "digitsValue n (c # cs) =
     (if (48::nat) \<le> of_char c \<and> (of_char c :: nat) \<le> 57
      then digitsValue (n * 10 + (int (of_char c) - 48)) cs
      else None)"

definition strconv_Atoi :: "string \<Rightarrow> int option" where
  "strconv_Atoi s =
     (case s of
        [] \<Rightarrow> None
      | c # cs \<Rightarrow>
          (let neg = (c = CHR ''-'');
               ds = (if c = CHR ''-'' \<or> c = CHR ''+'' then cs else s)
           in if ds = [] then None
              else (case digitsValue 0 ds of
                      None \<Rightarrow> None
                    | Some n \<Rightarrow>
                        (let v = (if neg then - n else n)
                         in if - (2 ^ 63) \<le> v \<and> v < 2 ^ 63 then Some v else None))))"

section \<open>Unmounting a multipath device\<close>

text \<open>
  \<open>unmount\<close> fails when the command returns an error or a non-zero exit code. It logs
  \<open>err.Error()\<close> in both cases, so a non-zero exit code with a \<open>nil\<close> error is a nil
  dereference.
\<close>

definition unmount :: "host \<Rightarrow> string \<Rightarrow> event list \<Rightarrow> outcome \<times> event list" where
  "unmount h mountPoint tr =
     (let (out, rc, err) = ExecCommandOutput h tr ''umount'' [mountPoint];
          tr1 = tr @ [Exec ''umount'' [mountPoint]]
      in if err \<noteq> None \<or> rc \<noteq> 0
         then (case err of None \<Rightarrow> (Panicked, tr1) | Some e \<Rightarrow> (Failure e, tr1))
         else (Success, tr1))"

text \<open>The PID column of one line of \<open>fuser -mv\<close>: the third field of a line of more than
  four fields, the second of a line of exactly four.\<close>

definition pidField :: "string list \<Rightarrow> string" where
  "pidField lineItems =
     (if length lineItems > 4 \<and> lineItems ! 2 \<noteq> [] then lineItems ! 2
      else if length lineItems = 4 \<and> lineItems ! 1 \<noteq> [] then lineItems ! 1
      else [])"

text \<open>The loop of \<open>KillProcessesUsingMountPoints\<close> over the lines after the header.\<close>

fun killLoop :: "host \<Rightarrow> string \<Rightarrow> string list \<Rightarrow> event list \<Rightarrow> outcome \<times> event list" where
  "killLoop h mountPoint [] tr = (Success, tr)"
| "killLoop h mountPoint (line # lines) tr =
     (if strings_TrimSpace line = [] then killLoop h mountPoint lines tr
      else if strings_Contains line ''kernel'' then killLoop h mountPoint lines tr
      else
        (let lineItems = strings_Fields line in
         if length lineItems > 1 then
           (let pidStr = pidField lineItems in
            if length pidStr = 0 then killLoop h mountPoint lines tr
            else
              (case strconv_Atoi pidStr of
                 None \<Rightarrow> killLoop h mountPoint lines tr
               | Some pid \<Rightarrow>
                   if pid > 0 then
                     (case syscall_Kill h tr pid of
                        Some e \<Rightarrow> (Failure e, tr @ [Kill pid])
                      | None \<Rightarrow> killLoop h mountPoint lines (tr @ [Kill pid]))
                   else killLoop h mountPoint lines tr))
         else
           (Failure (''Improper output received while getting the list of processes accesing the mount point/device '' @ mountPoint),
            tr)))"

definition KillProcessesUsingMountPoints ::
  "host \<Rightarrow> string \<Rightarrow> event list \<Rightarrow> outcome \<times> event list" where
  "KillProcessesUsingMountPoints h mountPoint tr =
     (let tr1 = tr @ [Lock staleDeviceRemovalMutex];
          (output, rc, err) = ExecCommandOutput h tr1 ''fuser'' [''-mv'', mountPoint];
          tr2 = tr1 @ [Exec ''fuser'' [''-mv'', mountPoint]]
      in case err of
           Some e \<Rightarrow> (Failure e, tr2 @ [Unlock staleDeviceRemovalMutex])
         | None \<Rightarrow>
             (let lines = strings_Split_nl output in
              if length lines > 2 then
                (let (r, tr3) = killLoop h mountPoint (tl lines) tr2
                 in (r, tr3 @ [Unlock staleDeviceRemovalMutex]))
              else if length lines = 2 then (Success, tr2 @ [Unlock staleDeviceRemovalMutex])
              else
                (Failure (''Improper output received while getting the list of processes accessing the mount point/device '' @ mountPoint),
                 tr2 @ [Unlock staleDeviceRemovalMutex])))"

text \<open>The body of the loop of \<open>UnmountMultipathDevice\<close>, for one mount point: what it
  returns is \<open>Success\<close> when the loop goes on to the next mount point, and otherwise what
  the function returns.\<close>

definition unmountMountPoint :: "host \<Rightarrow> string \<Rightarrow> event list \<Rightarrow> outcome \<times> event list" where
  "unmountMountPoint h mountPoint tr =
     (case unmount h mountPoint tr of
        (Success, tr1) \<Rightarrow> (Success, tr1)
      | (Panicked, tr1) \<Rightarrow> (Panicked, tr1)
      | (Failure e1, tr1) \<Rightarrow>
          (case KillProcessesUsingMountPoints h mountPoint tr1 of
             (Failure e2, tr2) \<Rightarrow>
               (Failure (''Unable to kill the processes using the mount point '' @ mountPoint @ '': '' @ e2),
                tr2)
           | (Panicked, tr2) \<Rightarrow> (Panicked, tr2)
           | (Success, tr2) \<Rightarrow> unmount h mountPoint tr2))"

fun unmountLoop :: "host \<Rightarrow> string list \<Rightarrow> event list \<Rightarrow> outcome \<times> event list" where
  "unmountLoop h [] tr = (Success, tr)"
| "unmountLoop h (mountPoint # mountPoints) tr =
     (case unmountMountPoint h mountPoint tr of
        (Success, tr1) \<Rightarrow> unmountLoop h mountPoints tr1
      | (r, tr1) \<Rightarrow> (r, tr1))"

definition UnmountMultipathDevice :: "host \<Rightarrow> string \<Rightarrow> event list \<Rightarrow> outcome \<times> event list" where
  "UnmountMultipathDevice h multipathDevice tr =
     (case findMountPointsOfMultipathDevice h multipathDevice tr of
        ((mountPoints, Some e), tr1) \<Rightarrow>
          (Failure (''Error occurred while fetching the mount points of the multipath device ''
                    @ multipathDevice @ '':'' @ e),
           tr1)
      | ((mountPoints, None), tr1) \<Rightarrow>
          if length mountPoints = 0 then (Success, tr1)
          else
            (let (r, tr2) = unmountLoop h mountPoints (tr1 @ [Lock umountMutex])
             in (r, tr2 @ [Unlock umountMutex])))"

section \<open>Flushing a multipath device\<close>

definition displayDeviceInfo :: "host \<Rightarrow> string \<Rightarrow> event list \<Rightarrow> outcome \<times> event list" where
  "displayDeviceInfo h multipathDevice tr =
     (let (out, rc, err) = ExecCommandOutput h tr ''dmsetup'' [''info'', multipathDevice];
          tr1 = tr @ [Exec ''dmsetup'' [''info'', multipathDevice]]
      in case err of Some e \<Rightarrow> (Failure e, tr1) | None \<Rightarrow> (Success, tr1))"

definition listTheProcessesUsingDevice :: "host \<Rightarrow> string \<Rightarrow> event list \<Rightarrow> outcome \<times> event list" where
  "listTheProcessesUsingDevice h multipathDevice tr =
     (let args = [''-mv'', ''/dev/mapper/'' @ multipathDevice];
          (output, rc, err) = ExecCommandOutput h tr ''fuser'' args;
          tr1 = tr @ [Exec ''fuser'' args]
      in case err of Some e \<Rightarrow> (Failure e, tr1) | None \<Rightarrow> (Success, tr1))"

definition forceDeleteMultipathDevice :: "host \<Rightarrow> string \<Rightarrow> event list \<Rightarrow> outcome \<times> event list" where
  "forceDeleteMultipathDevice h multipathDevice tr =
     (let (out, rc, err) = ExecCommandOutput h tr ''dmsetup'' [''remove'', ''-f'', multipathDevice];
          tr1 = tr @ [Exec ''dmsetup'' [''remove'', ''-f'', multipathDevice]]
      in case err of Some e \<Rightarrow> (Failure e, tr1) | None \<Rightarrow> (Success, tr1))"

text \<open>The errors of the two diagnostic calls are logged and overwritten; the error of the
  flush itself is logged and then overwritten by theirs.\<close>

definition FlushMultipathDevice :: "host \<Rightarrow> string \<Rightarrow> event list \<Rightarrow> outcome \<times> event list" where
  "FlushMultipathDevice h multipathDevice tr =
     (let tr1 = tr @ [Lock staleDeviceRemovalMutex];
          (out, rc, err) = ExecCommandOutput h tr1 ''multipath'' [''-f'', multipathDevice];
          tr2 = tr1 @ [Exec ''multipath'' [''-f'', multipathDevice]]
      in case err of
           None \<Rightarrow> (Success, tr2 @ [Unlock staleDeviceRemovalMutex])
         | Some e \<Rightarrow>
             (let (r1, tr3) = displayDeviceInfo h multipathDevice tr2;
                  (r2, tr4) = listTheProcessesUsingDevice h multipathDevice tr3;
                  (r3, tr5) = forceDeleteMultipathDevice h multipathDevice tr4
              in case r3 of
                   Failure e3 \<Rightarrow>
                     (Failure (''Unable to remove the multipath device '' @ multipathDevice
                               @ '' by force as well: '' @ e3),
                      tr5 @ [Unlock staleDeviceRemovalMutex])
                 | r \<Rightarrow> (r, tr5 @ [Unlock staleDeviceRemovalMutex])))"

text \<open>A host on which every command succeeds and prints the same text.\<close>

definition printingHost :: "string \<Rightarrow> host" where
  "printingHost out =
     \<lparr>ExecCommandOutput = (\<lambda>tr cmd args. (out, 0, None)), syscall_Kill = (\<lambda>tr pid. None)\<rparr>"

text \<open>How often a trace runs \<open>umount\<close> on a mount point, and how often it lists the
  processes of a mount point, which \<open>KillProcessesUsingMountPoints\<close> does once per call
  and nothing else on the unmount path does.\<close>

definition unmountCalls :: "string \<Rightarrow> event list \<Rightarrow> nat" where
  "unmountCalls mountPoint evs = count_list evs (Exec ''umount'' [mountPoint])"

definition killProcessesCalls :: "string \<Rightarrow> event list \<Rightarrow> nat" where
  "killProcessesCalls mountPoint evs = count_list evs (Exec ''fuser'' [''-mv'', mountPoint])"

text \<open>A host where \<open>mpatha\<close> is mounted on \<open>/data\<close> and a shell keeps the mount point
  busy: \<open>umount\<close> fails until the processes have been listed and killed.\<close>

definition busyHost :: host where
  "busyHost =
     \<lparr>ExecCommandOutput = (\<lambda>tr cmd args.
        if cmd = ''mount'' then (''/dev/mapper/mpatha on /data type ext4 (rw)'', 0, None)
        else if cmd = ''umount'' then
          (if Kill 1234 \<in> set tr then ([], 0, None) else ([], 32, Some ''exit status 32''))
        else if cmd = ''fuser'' then
          (''USER PID ACCESS COMMAND\<newline>/data: root 1234 ..c.. bash\<newline>'', 0, None)
        else ([], 0, None)),
      syscall_Kill = (\<lambda>tr pid. None)\<rparr>"

text \<open>The same mount, where \<open>umount\<close> fails and so does \<open>fuser\<close> (as it does when no
  process uses the mount point).\<close>

definition stuckHost :: host where
  "stuckHost =
     \<lparr>ExecCommandOutput = (\<lambda>tr cmd args.
        if cmd = ''mount'' then (''/dev/mapper/mpatha on /data type ext4 (rw)'', 0, None)
        else if cmd = ''umount'' then ([], 32, Some ''exit status 32'')
        else if cmd = ''fuser'' then ([], 1, Some ''exit status 1'')
        else ([], 0, None)),
      syscall_Kill = (\<lambda>tr pid. None)\<rparr>"

text \<open>A host where neither the flush of a map nor its forced removal works.\<close>

definition heldMapHost :: host where
  "heldMapHost =
     \<lparr>ExecCommandOutput = (\<lambda>tr cmd args.
        if cmd = ''multipath'' then ([], 1, Some ''map in use'')
        else if cmd = ''dmsetup'' \<and> args = [''remove'', ''-f'', ''mpatha'']
          then ([], 1, Some ''device busy'')
        else ([], 0, None)),
      syscall_Kill = (\<lambda>tr pid. None)\<rparr>"

section \<open>iSCSI targets of a device\<close>

text \<open>
  The structures are those of the packages \<open>iscsidsc\<close>, \<open>ioctl\<close> and \<open>model\<close>, with the
  fields this file reads. The bus and target numbers of a mapping are \<open>uint32\<close>; those of
  a SCSI address are bytes, which the code widens with \<open>uint32(...)\<close>. The socket of a
  portal is a 16-bit port number.
\<close>

record ISCSI_TARGET_MAPPING =
  InitiatorName :: string
  TargetName :: string
  OSBusNumber :: "32 word"
  OSTargetNumber :: "32 word"

record SCSI_ADDRESS =
  PortNumber :: "8 word"
  PathId :: "8 word"
  TargetId :: "8 word"
  Lun :: "8 word"

record ISCSI_TARGET_PORTAL =
  SymbolicName :: string
  PortalAddress :: string
  Socket :: "16 word"

record TargetPortal =
  Address :: string
  Port :: string

text \<open>\<open>TargetPortals\<close> is a slice that the code compares with \<open>nil\<close>: \<open>None\<close> is the
  \<open>nil\<close> slice, \<open>Some []\<close> an empty one.\<close>

record IscsiTarget =
  Name :: string
  TargetScope :: string
  TargetPortals :: "TargetPortal list option"

datatype ErrorCode = NotFound

datatype error = ChapiError ErrorCode string | OtherError string

text \<open>Modelled from the spec: the message constant \<open>errorMessageUnableLocateIscsiTarget\<close>
  is declared in another file of the package; the spec quotes its text.\<close>

definition errorMessageUnableLocateIscsiTarget :: string where
  "errorMessageUnableLocateIscsiTarget = ''unable to locate iSCSI target''"

text \<open>Modelled from the spec: the target type cache (\<open>getTargetTypeCache\<close>,
  \<open>GetTargetType\<close>, \<open>SetTargetType\<close>) is declared in another file of the package. It maps
  a target name to its scope, and a miss returns the empty string.\<close>

type_synonym TargetTypeCache = "string \<rightharpoonup> string"

definition GetTargetType :: "TargetTypeCache \<Rightarrow> string \<Rightarrow> string" where
  "GetTargetType c targetName = (case c targetName of None \<Rightarrow> [] | Some scope \<Rightarrow> scope)"

definition SetTargetType :: "TargetTypeCache \<Rightarrow> string \<Rightarrow> string \<Rightarrow> TargetTypeCache" where
  "SetTargetType c targetName scope = c(targetName \<mapsto> scope)"

text \<open>
  What the Windows functions call outside this file: the SCSI address of a device, the
  portals of a target, and \<open>net.ParseIP\<close> of Go's library, which returns the bytes of the
  address (\<open>[]\<close> is \<open>nil\<close>). The plugin holds the iSCSI plugin, which may be \<open>nil\<close>; of
  the iSCSI plugin the code calls \<open>GetTargetScope\<close>.
\<close>

record winhost =
  GetScsiAddress :: "string \<Rightarrow> error + SCSI_ADDRESS"
  ReportIScsiTargetPortals :: "string \<Rightarrow> string \<Rightarrow> error + ISCSI_TARGET_PORTAL list"
  ParseIP :: "string \<Rightarrow> 8 word list"

record MultipathPlugin =
  iscsiPlugin :: "(string \<Rightarrow> string \<times> error option) option"

text \<open>A call of Go either returns or panics.\<close>

datatype 'a go = Return 'a | Panic

text \<open>\<open>net.IP.To4\<close>: the four bytes of an address that has a 4-byte form, \<open>nil\<close>
  otherwise.\<close>

definition To4 :: "8 word list \<Rightarrow> 8 word list" where
  "To4 ip =
     (if length ip = 4 then ip
      else if length ip = 16 \<and> (\<forall>b \<in> set (take 10 ip). b = 0) \<and> ip ! 10 = 0xff \<and> ip ! 11 = 0xff
        then drop 12 ip
      else [])"

text \<open>\<open>strconv.Itoa\<close>.\<close>

fun natDigits :: "nat \<Rightarrow> string" where
  "natDigits n =
     (if n < 10 then [char_of (48 + n)]
      else natDigits (n div 10) @ [char_of (48 + n mod 10)])"

definition strconv_Itoa :: "int \<Rightarrow> string" where
  "strconv_Itoa i = (if i < 0 then CHR ''-'' # natDigits (nat (- i)) else natDigits (nat i))"

text \<open>The loop of \<open>getTargetPortals\<close>.\<close>

fun targetPortalsLoop ::
  "winhost \<Rightarrow> ISCSI_TARGET_PORTAL list \<Rightarrow> TargetPortal list \<Rightarrow> TargetPortal list" where
  "targetPortalsLoop w [] chapiTargetPortals = chapiTargetPortals"
| "targetPortalsLoop w (targetPortalWindows # targetPortals) chapiTargetPortals =
     (if To4 (ParseIP w (PortalAddress targetPortalWindows)) \<noteq> [] then
        targetPortalsLoop w targetPortals
          (chapiTargetPortals @
             [\<lparr>Address = PortalAddress targetPortalWindows,
               Port = strconv_Itoa (uint (Socket targetPortalWindows))\<rparr>])
      else targetPortalsLoop w targetPortals chapiTargetPortals)"

definition getTargetPortals ::
  "winhost \<Rightarrow> string \<Rightarrow> string \<Rightarrow> TargetPortal list option \<times> error option" where
  "getTargetPortals w initiatorName targetName =
     (case ReportIScsiTargetPortals w initiatorName targetName of
        Inl err \<Rightarrow> (None, Some err)
      | Inr targetPortals \<Rightarrow> (Some (targetPortalsLoop w targetPortals []), None))"

text \<open>The two caches that \<open>getIscsiTarget\<close> reads and updates: the process-wide target
  type cache and the portal cache of the caller.\<close>

type_synonym caches = "TargetTypeCache \<times> (string \<rightharpoonup> TargetPortal list)"

text \<open>The part of the loop body of \<open>getIscsiTarget\<close> that runs for the mapping that
  matches, up to the \<open>break\<close>.\<close>

definition iscsiTargetOfMapping ::
  "MultipathPlugin \<Rightarrow> winhost \<Rightarrow> ISCSI_TARGET_MAPPING \<Rightarrow> caches \<Rightarrow> (IscsiTarget \<times> caches) go" where
  "iscsiTargetOfMapping plugin w targetMapping st =
     (let (typeCache, cachedTargetPortals) = st;
          cachedScope = GetTargetType typeCache (TargetName targetMapping);
          scoped =
            (if cachedScope = [] then
               (case iscsiPlugin plugin of
                  None \<Rightarrow> Panic
                | Some GetTargetScope \<Rightarrow>
                    (let scope = fst (GetTargetScope (TargetName targetMapping))
                     in Return
                          (scope,
                           if scope \<noteq> [] then SetTargetType typeCache (TargetName targetMapping) scope
                           else typeCache)))
             else Return (cachedScope, typeCache))
      in case scoped of
           Panic \<Rightarrow> Panic
         | Return (scope, typeCache') \<Rightarrow>
             (let (portals, cachedTargetPortals') =
                    (case cachedTargetPortals (TargetName targetMapping) of
                       Some ps \<Rightarrow> (Some ps, cachedTargetPortals)
                     | None \<Rightarrow>
                         (case fst (getTargetPortals w (InitiatorName targetMapping)
                                      (TargetName targetMapping)) of
                            None \<Rightarrow> (None, cachedTargetPortals)
                          | Some ps \<Rightarrow>
                              (Some ps, cachedTargetPortals(TargetName targetMapping \<mapsto> ps))))
              in Return
                   (\<lparr>Name = TargetName targetMapping, TargetScope = scope, TargetPortals = portals\<rparr>,
                    (typeCache', cachedTargetPortals'))))"

fun targetMappingsLoop ::
  "MultipathPlugin \<Rightarrow> winhost \<Rightarrow> SCSI_ADDRESS \<Rightarrow> ISCSI_TARGET_MAPPING list \<Rightarrow> caches
     \<Rightarrow> (IscsiTarget option \<times> caches) go" where
  "targetMappingsLoop plugin w scsiAddress [] st = Return (None, st)"
| "targetMappingsLoop plugin w scsiAddress (targetMapping # targetMappings) st =
     (if OSTargetNumber targetMapping \<noteq> ucast (TargetId scsiAddress)
         \<or> OSBusNumber targetMapping \<noteq> ucast (PathId scsiAddress)
      then targetMappingsLoop plugin w scsiAddress targetMappings st
      else (case iscsiTargetOfMapping plugin w targetMapping st of
              Panic \<Rightarrow> Panic
            | Return (iscsiTarget, st') \<Rightarrow> Return (Some iscsiTarget, st')))"

definition getIscsiTarget ::
  "MultipathPlugin \<Rightarrow> winhost \<Rightarrow> string \<Rightarrow> ISCSI_TARGET_MAPPING list \<Rightarrow> caches
     \<Rightarrow> ((IscsiTarget option \<times> error option) \<times> caches) go" where
  "getIscsiTarget plugin w devicePathID targetMappings st =
     (case GetScsiAddress w devicePathID of
        Inl err \<Rightarrow> Return ((None, Some err), st)
      | Inr scsiAddress \<Rightarrow>
          (case targetMappingsLoop plugin w scsiAddress targetMappings st of
             Panic \<Rightarrow> Panic
           | Return (None, st') \<Rightarrow>
               Return ((None, Some (ChapiError NotFound errorMessageUnableLocateIscsiTarget)), st')
           | Return (Some iscsiTarget, st') \<Rightarrow> Return ((Some iscsiTarget, None), st')))"

text \<open>A Windows host with one iSCSI disk at bus 0, target 1, whose target has two IPv4
  portals and one IPv6 portal; \<open>ParseIP\<close> is what \<open>net.ParseIP\<close> returns for these three
  addresses. Three sessions are mapped, two of them at the address of the disk.\<close>

definition demoPortals :: "ISCSI_TARGET_PORTAL list" where
  "demoPortals =
     [\<lparr>SymbolicName = [], PortalAddress = ''10.0.0.5'', Socket = 3260\<rparr>,
      \<lparr>SymbolicName = [], PortalAddress = ''fe80::1'', Socket = 3260\<rparr>,
      \<lparr>SymbolicName = [], PortalAddress = ''10.0.0.6'', Socket = 3261\<rparr>]"

definition demoWinhost :: winhost where
  "demoWinhost =
     \<lparr>GetScsiAddress = (\<lambda>path. Inr \<lparr>PortNumber = 2, PathId = 0, TargetId = 1, Lun = 0\<rparr>),
      ReportIScsiTargetPortals = (\<lambda>initiatorName targetName. Inr demoPortals),
      ParseIP = (\<lambda>s.
        if s = ''10.0.0.5'' then [0, 0, 0, 0, 0, 0, 0, 0, 0, 0, 0xff, 0xff, 10, 0, 0, 5]
        else if s = ''10.0.0.6'' then [0, 0, 0, 0, 0, 0, 0, 0, 0, 0, 0xff, 0xff, 10, 0, 0, 6]
        else if s = ''fe80::1'' then [0xfe, 0x80, 0, 0, 0, 0, 0, 0, 0, 0, 0, 0, 0, 0, 0, 1]
        else [])\<rparr>"

definition demoPlugin :: MultipathPlugin where
  "demoPlugin = \<lparr>iscsiPlugin = Some (\<lambda>targetName. (''volume'', None))\<rparr>"

definition demoMappings :: "ISCSI_TARGET_MAPPING list" where
  "demoMappings =
     [\<lparr>InitiatorName = ''iqn.host'', TargetName = ''iqn.a'', OSBusNumber = 0, OSTargetNumber = 0\<rparr>,
      \<lparr>InitiatorName = ''iqn.host'', TargetName = ''iqn.b'', OSBusNumber = 0, OSTargetNumber = 1\<rparr>,
      \<lparr>InitiatorName = ''iqn.host'', TargetName = ''iqn.c'', OSBusNumber = 0, OSTargetNumber = 1\<rparr>]"

text \<open>An IPv4 literal, in the words of the spec: four decimal numbers from 0 to 255,
  separated by dots.\<close>

fun splitDots :: "string \<Rightarrow> string \<Rightarrow> string list" where
  "splitDots cur [] = [cur]"
| "splitDots cur (c # cs) =
     (if c = CHR ''.'' then cur # splitDots [] cs else splitDots (cur @ [c]) cs)"

definition isOctet :: "string \<Rightarrow> bool" where
  "isOctet s \<longleftrightarrow>
     s \<noteq> [] \<and> length s \<le> 3 \<and>
     (case digitsValue 0 s of None \<Rightarrow> False | Some n \<Rightarrow> n \<le> 255)"

definition isIPv4Literal :: "string \<Rightarrow> bool" where
  "isIPv4Literal s \<longleftrightarrow> length (splitDots [] s) = 4 \<and> list_all isOctet (splitDots [] s)"

text \<open>A Windows host whose target has one portal, entered as the IPv4-mapped IPv6
  address \<open>::ffff:10.0.0.5\<close>. \<open>net.ParseIP\<close> accepts this form and returns its sixteen
  bytes.\<close>

definition mappedPortalHost :: winhost where
  "mappedPortalHost =
     \<lparr>GetScsiAddress = (\<lambda>path. Inr \<lparr>PortNumber = 2, PathId = 0, TargetId = 1, Lun = 0\<rparr>),
      ReportIScsiTargetPortals = (\<lambda>initiatorName targetName.
        Inr [\<lparr>SymbolicName = [], PortalAddress = ''::ffff:10.0.0.5'', Socket = 3260\<rparr>]),
      ParseIP = (\<lambda>s.
        if s = ''::ffff:10.0.0.5'' then [0, 0, 0, 0, 0, 0, 0, 0, 0, 0, 0xff, 0xff, 10, 0, 0, 5]
        else [])\<rparr>"

section \<open>Multipath devices of the host\<close>

text \<open>
  A map of \<open>multipathd show multipaths json\<close>, as \<open>model.MultipathDevice\<close> holds it,
  with the fields this file reads (\<open>md_Name\<close> is the field \<open>Name\<close>, \<open>pg_Paths\<close> the field
  \<open>Paths\<close> of a path group). The two counters are Go \<open>int\<close>s that are only compared.
\<close>

record Path =
  Dev :: string

record PathGroup =
  pg_Paths :: "Path list"

record MultipathDevice =
  md_Name :: string
  Vend :: string
  Paths :: int
  PathFaults :: int
  PathGroups :: "PathGroup list"
  IsUnhealthy :: bool

fun isSupportedDeviceVendor :: "string list \<Rightarrow> string \<Rightarrow> bool" where
  "isSupportedDeviceVendor [] vendor = False"
| "isSupportedDeviceVendor (v # deviceVendors) vendor =
     (if v = vendor then True else isSupportedDeviceVendor deviceVendors vendor)"

text \<open>The loop of \<open>GetMultipathDevices\<close> over the maps.\<close>

fun multipathMapsLoop ::
  "string list \<Rightarrow> MultipathDevice list \<Rightarrow> MultipathDevice list \<Rightarrow> MultipathDevice list" where
  "multipathMapsLoop vendors [] multipathDevices = multipathDevices"
| "multipathMapsLoop vendors (mapItem # maps) multipathDevices =
     (if length (Vend mapItem) > 0 \<and> isSupportedDeviceVendor vendors (Vend mapItem) then
        (let mapItem' =
               (if Paths mapItem < 1 \<and> PathFaults mapItem > 0
                then mapItem\<lparr>IsUnhealthy := True\<rparr> else mapItem)
         in multipathMapsLoop vendors maps (multipathDevices @ [mapItem']))
      else multipathMapsLoop vendors maps multipathDevices)"

text \<open>
  \<open>json.Unmarshal\<close> into \<open>model.MultipathInfo\<close> is a parameter: it returns the maps of
  the document or an error. So is the list \<open>linux.DeviceVendorPatterns\<close> of the supported
  vendors.
\<close>

definition GetMultipathDevices ::
  "host \<Rightarrow> (string \<Rightarrow> string + MultipathDevice list) \<Rightarrow> string list \<Rightarrow> event list
     \<Rightarrow> (MultipathDevice list \<times> string option) \<times> event list" where
  "GetMultipathDevices h json_Unmarshal DeviceVendorPatterns tr =
     (let (out, rc, err) = ExecCommandOutput h tr ''multipathd'' [''show'', ''multipaths'', ''json''];
          tr1 = tr @ [Exec ''multipathd'' [''show'', ''multipaths'', ''json'']]
      in case err of
           Some e \<Rightarrow> (([], Some (''Failed to get the multipath devices due to the error: '' @ e)), tr1)
         | None \<Rightarrow>
             if out \<noteq> [] then
               (case json_Unmarshal out of
                  Inl e \<Rightarrow> (([], Some (''Invalid JSON output of multipathd command: '' @ e)), tr1)
                | Inr maps \<Rightarrow> ((multipathMapsLoop DeviceVendorPatterns maps [], None), tr1))
             else (([], Some ''Invalid multipathd command output received''), tr1))"

text \<open>Three maps as the decoder returns them: one with no path left and faults, one
  healthy, one of a vendor that is not supported.\<close>

definition demoMaps :: "MultipathDevice list" where
  "demoMaps =
     [\<lparr>md_Name = ''mpatha'', Vend = ''Nimble'', Paths = 0, PathFaults = 2, PathGroups = [],
       IsUnhealthy = False\<rparr>,
      \<lparr>md_Name = ''mpathb'', Vend = ''Nimble'', Paths = 2, PathFaults = 1, PathGroups = [],
       IsUnhealthy = False\<rparr>,
      \<lparr>md_Name = ''mpathc'', Vend = ''ACME'', Paths = 0, PathFaults = 1, PathGroups = [],
       IsUnhealthy = False\<rparr>]"

section \<open>Recommendations for multipath.conf\<close>

text \<open>
  A recommendation, as the package \<open>tunelinux\<close> declares it. \<open>Category.String(Multipath)\<close>
  and \<open>ComplianceStatus.String(...)\<close> render the values of two enumerations, declared
  in another file; the fields hold the values themselves.
\<close>

datatype Category = Multipath

datatype ComplianceStatus = NotRecommended | Recommended

record Recommendation =
  ID :: string
  Category :: Category
  Level :: string
  Description :: string
  Parameter :: string
  Value :: string
  Recommendation :: string
  CompliantStatus :: ComplianceStatus
  Device :: string
  FsType :: string
  Vendor :: string

record DeviceRecommendation =
  DeviceType :: string
  RecomendArray :: "Recommendation list"

section \<open>Regular expressions\<close>

text \<open>
  The patterns of this file, as Go's \<open>regexp\<close> matches them: a pattern is a sequence of
  literals, repetitions of a character class (greedy \<open>*\<close> and \<open>+\<close>, lazy \<open>*?\<close>) and the
  two ends of a named group. The match is the leftmost one and, among those, the one a
  backtracking search finds first. \<open>\s\<close> is \<open>[\t\n\f\r ]\<close>; \<open>.\<close> is any character but
  a newline, and any character under the flag \<open>s\<close>. The characters the patterns ask for
  are ASCII, so matching bytes is matching runes.
\<close>

datatype charclass = Space | Dot | DotAll

datatype item =
    Lit string
  | Star charclass
  | Plus charclass
  | LazyStar charclass
  | Open string
  | Close string

fun inClass :: "charclass \<Rightarrow> char \<Rightarrow> bool" where
  "inClass Space c \<longleftrightarrow>
     c = CHR 0x09 \<or> c = CHR 0x0A \<or> c = CHR 0x0C \<or> c = CHR 0x0D \<or> c = CHR 0x20"
| "inClass Dot c \<longleftrightarrow> c \<noteq> CHR 0x0A"
| "inClass DotAll c \<longleftrightarrow> True"

text \<open>A greedy repetition takes as many characters as it can and gives them back one at
  a time while the rest of the pattern fails; a lazy one takes them one at a time.\<close>

fun greedy :: "(char \<Rightarrow> bool) \<Rightarrow> (string \<Rightarrow> 'a option) \<Rightarrow> string \<Rightarrow> 'a option" where
  "greedy p k [] = k []"
| "greedy p k (c # cs) =
     (if p c then (case greedy p k cs of Some r \<Rightarrow> Some r | None \<Rightarrow> k (c # cs))
      else k (c # cs))"

fun lazy :: "(char \<Rightarrow> bool) \<Rightarrow> (string \<Rightarrow> 'a option) \<Rightarrow> string \<Rightarrow> 'a option" where
  "lazy p k [] = k []"
| "lazy p k (c # cs) =
     (case k (c # cs) of Some r \<Rightarrow> Some r | None \<Rightarrow> if p c then lazy p k cs else None)"

text \<open>An open group holds the input left at its start; closing it replaces that by the
  text matched since.\<close>

definition closeGroup :: "string \<Rightarrow> string \<Rightarrow> (string \<times> string) list \<Rightarrow> (string \<times> string) list" where
  "closeGroup g s groups =
     map (\<lambda>(n, start). if n = g then (n, take (length start - length s) start) else (n, start))
       groups"

fun matchItems :: "item list \<Rightarrow> string \<Rightarrow> (string \<times> string) list \<Rightarrow> (string \<times> string) list option" where
  "matchItems [] s groups = Some groups"
| "matchItems (Lit l # re) s groups =
     (if isPrefix l s then matchItems re (drop (length l) s) groups else None)"
| "matchItems (Star c # re) s groups = greedy (inClass c) (\<lambda>s'. matchItems re s' groups) s"
| "matchItems (Plus c # re) s groups =
     (case s of
        [] \<Rightarrow> None
      | ch # cs \<Rightarrow>
          if inClass c ch then greedy (inClass c) (\<lambda>s'. matchItems re s' groups) cs else None)"
| "matchItems (LazyStar c # re) s groups = lazy (inClass c) (\<lambda>s'. matchItems re s' groups) s"
| "matchItems (Open g # re) s groups = matchItems re s ((g, s) # groups)"
| "matchItems (Close g # re) s groups = matchItems re s (closeGroup g s groups)"

text \<open>\<open>FindStringSubmatch\<close>: the groups of the leftmost match, \<open>None\<close> when the pattern
  matches nowhere (\<open>MatchString\<close> is false).\<close>

fun FindStringSubmatch :: "item list \<Rightarrow> string \<Rightarrow> (string \<times> string) list option" where
  "FindStringSubmatch re [] = matchItems re [] []"
| "FindStringSubmatch re (c # cs) =
     (case matchItems re (c # cs) [] of
        Some groups \<Rightarrow> Some groups
      | None \<Rightarrow> FindStringSubmatch re cs)"

text \<open>Modelled from the spec: \<open>util.FindStringSubmatchMap\<close> belongs to the package
  \<open>util\<close>, outside this file; it returns the text of each named group of the match, and
  \<open>result[name]\<close> reads one of them (the empty string when there is none).\<close>

definition submatch :: "(string \<times> string) list \<Rightarrow> string \<Rightarrow> string" where
  "submatch result groupName = (case map_of result groupName of None \<Rightarrow> [] | Some text \<Rightarrow> text)"

text \<open>\<open>\s*(?P<name>.*?)\s+(?P<value>.*)\<close>\<close>

definition multipathParamPattern :: "item list" where
  "multipathParamPattern =
     [Star Space, Open ''name'', LazyStar Dot, Close ''name'', Plus Space,
      Open ''value'', Star Dot, Close ''value'']"

text \<open>\<open>(?s)devices\s+{\s*.*device\s*{(?P<device_block>.*Nimble.*?)}\<close>, and the same with
  \<open>3PAR\<close>, under the keys \<open>Nimble\<close> and \<open>3par\<close> of the map \<open>deviceBlockPattern\<close>.\<close>

definition vendorBlockPattern :: "string \<Rightarrow> item list" where
  "vendorBlockPattern vendor =
     [Lit ''devices'', Plus Space, Lit ''{'', Star Space, Star DotAll, Lit ''device'', Star Space,
      Lit ''{'', Open ''device_block'', Star DotAll, Lit vendor, LazyStar DotAll,
      Close ''device_block'', Lit ''}'']"

definition deviceBlockPattern :: "string \<rightharpoonup> item list" where
  "deviceBlockPattern =
     [''Nimble'' \<mapsto> vendorBlockPattern ''Nimble'', ''3par'' \<mapsto> vendorBlockPattern ''3PAR'']"

section \<open>Computing the recommendations\<close>

text \<open>\<open>strings.Replace(s, "\textbackslash"", "", n)\<close>: \<open>s\<close> without its first \<open>n\<close> double
  quotes.\<close>

fun removeQuotes :: "nat \<Rightarrow> string \<Rightarrow> string" where
  "removeQuotes n [] = []"
| "removeQuotes n (c # cs) =
     (if 0 < n \<and> c = CHR 0x22 then removeQuotes (n - 1) cs else c # removeQuotes n cs)"

text \<open>
  The templates that \<open>getParamToTemplateFieldMap\<close> returns for the fields
  \<open>recommendation\<close>, \<open>description\<close> and \<open>severity\<close>, one entry per device type
  (\<open>tm_DeviceType\<close> is its field \<open>DeviceType\<close>), with \<open>linux.HashMountID\<close> and the constant
  \<open>All\<close>: all declared outside this file, and parameters here.
\<close>

record TemplateMap =
  tm_DeviceType :: string
  deviceMap :: "string \<rightharpoonup> string"

record templates =
  recommendationMap :: "TemplateMap list"
  descriptionMap :: "TemplateMap list"
  severityMap :: "TemplateMap list"
  HashMountID :: "string \<Rightarrow> string"
  AllDevices :: string

definition getMultipathDeviceParamRecommendation ::
  "templates \<Rightarrow> string \<Rightarrow> string \<Rightarrow> string \<Rightarrow> string \<Rightarrow> string \<Rightarrow> Recommendation" where
  "getMultipathDeviceParamRecommendation t paramKey currentValue recommendedValue description severity =
     \<lparr>ID = HashMountID t (''multipath'' @ ''device'' @ paramKey),
      Category = Multipath,
      Level = severity,
      Description = description,
      Parameter = paramKey,
      Value = currentValue,
      Recommendation = recommendedValue,
      CompliantStatus =
        (if currentValue = recommendedValue \<or> removeQuotes 2 currentValue = recommendedValue
         then Recommended else NotRecommended),
      Device = AllDevices t,
      FsType = [],
      Vendor = []\<rparr>"

text \<open>The innermost loop of \<open>getMultipathDeviceScopeRecommendations\<close>, over the lines of
  the device block. \<open>paramKey\<close> and \<open>paramValue\<close> are variables of the function and keep
  their values from one line, and one parameter, to the next.\<close>

fun settingsLoop :: "string \<Rightarrow> string list \<Rightarrow> string \<times> string \<Rightarrow> bool \<times> string \<times> string" where
  "settingsLoop key [] (paramKey, paramValue) = (False, paramKey, paramValue)"
| "settingsLoop key (setting # currentSettings) (paramKey, paramValue) =
     (if setting \<noteq> [] then
        (case FindStringSubmatch multipathParamPattern setting of
           None \<Rightarrow> settingsLoop key currentSettings (paramKey, paramValue)
         | Some result \<Rightarrow>
             if submatch result ''name'' = key
             then (True, submatch result ''name'', submatch result ''value'')
             else settingsLoop key currentSettings
                    (submatch result ''name'', submatch result ''value''))
      else settingsLoop key currentSettings (paramKey, paramValue))"

text \<open>A map read at a key that is missing gives the empty string; a slice indexed out of
  range panics.\<close>

definition mapValue :: "(string \<rightharpoonup> string) \<Rightarrow> string \<Rightarrow> string" where
  "mapValue m key = (case m key of None \<Rightarrow> [] | Some v \<Rightarrow> v)"

text \<open>The loop over the keys of the template of one device type, in the order in which
  \<open>range\<close> visits them.\<close>

fun keysLoop ::
  "templates \<Rightarrow> nat \<Rightarrow> string list \<Rightarrow> string list \<Rightarrow> string \<times> string \<Rightarrow> Recommendation list
     \<Rightarrow> (Recommendation list \<times> (string \<times> string)) go" where
  "keysLoop t index currentSettings [] vars RecomendArray' = Return (RecomendArray', vars)"
| "keysLoop t index currentSettings (key # keys) vars RecomendArray' =
     (let (keyFound, paramKey, paramValue) = settingsLoop key currentSettings vars in
      if index < length (descriptionMap t) \<and> index < length (severityMap t) then
        (let description = mapValue (deviceMap (descriptionMap t ! index)) key;
             recommendedValue = mapValue (deviceMap (recommendationMap t ! index)) key;
             severity = mapValue (deviceMap (severityMap t ! index)) key;
             recommendation =
               (if keyFound
                then getMultipathDeviceParamRecommendation t paramKey (strings_TrimSpace paramValue)
                       recommendedValue description severity
                else getMultipathDeviceParamRecommendation t key [] recommendedValue description
                       severity)
         in keysLoop t index currentSettings keys (paramKey, paramValue)
              (RecomendArray' @ [recommendation]))
      else Panic)"

text \<open>The loop over the device types. \<open>keyOrder index\<close> is the order in which \<open>range\<close>
  visits the keys of the template at \<open>index\<close>; Go does not fix it.\<close>

fun deviceTypesLoop ::
  "templates \<Rightarrow> (nat \<Rightarrow> string list) \<Rightarrow> string list \<Rightarrow> nat \<Rightarrow> nat \<Rightarrow> string \<times> string
     \<Rightarrow> DeviceRecommendation list \<Rightarrow> DeviceRecommendation list go" where
  "deviceTypesLoop t keyOrder currentSettings index 0 vars deviceRecommendations =
     Return deviceRecommendations"
| "deviceTypesLoop t keyOrder currentSettings index (Suc remaining) vars deviceRecommendations =
     (case keysLoop t index currentSettings (keyOrder index) vars [] of
        Panic \<Rightarrow> Panic
      | Return (RecomendArray', vars') \<Rightarrow>
          deviceTypesLoop t keyOrder currentSettings (Suc index) remaining vars'
            (deviceRecommendations @
               [\<lparr>DeviceType = tm_DeviceType (recommendationMap t ! index),
                 RecomendArray = RecomendArray'\<rparr>]))"

definition getMultipathDeviceScopeRecommendations ::
  "templates \<Rightarrow> (nat \<Rightarrow> string list) \<Rightarrow> string \<Rightarrow> DeviceRecommendation list go" where
  "getMultipathDeviceScopeRecommendations t keyOrder deviceBlock =
     deviceTypesLoop t keyOrder (strings_Split_nl deviceBlock) 0 (length (recommendationMap t))
       ([], []) []"

text \<open>
  What \<open>GetMultipathRecommendations\<close> asks the system: whether it is a virtual machine,
  whether guest iSCSI is enabled, whether the templates load, and \<open>os.Stat\<close> and
  \<open>ioutil.ReadFile\<close> of \<open>/etc/multipath.conf\<close>.
\<close>

datatype statResult = StatOk | StatNotExist string | StatError string

record tunehost =
  IsVirtualMachine :: "bool \<times> string option"
  IsIscsiEnabled :: bool
  loadTemplateSettings :: "string option"
  Stat :: statResult
  ReadFile :: "string + string"

definition IsMultipathRequired :: "tunehost \<Rightarrow> bool \<times> string option" where
  "IsMultipathRequired th =
     (case IsVirtualMachine th of
        (isVM, Some err) \<Rightarrow> (False, Some err)
      | (isVM, None) \<Rightarrow> (if isVM \<and> \<not> IsIscsiEnabled th then (False, None) else (True, None)))"

text \<open>The loop of \<open>GetMultipathRecommendations\<close> over the patterns of \<open>deviceBlockPattern\<close>.
  Each round overwrites \<open>deviceRecommendations\<close>. The \<open>err\<close> that the function returns
  after the loop is the one \<open>os.Stat\<close> set last; the reads and the recommendations set an
  \<open>err\<close> of their own, declared inside the loop.\<close>

fun patternsLoop ::
  "tunehost \<Rightarrow> templates \<Rightarrow> (nat \<Rightarrow> string list) \<Rightarrow> item list list
     \<Rightarrow> DeviceRecommendation list \<times> string option
     \<Rightarrow> (DeviceRecommendation list \<times> string option) go" where
  "patternsLoop th t keyOrder [] (deviceRecommendations, err) = Return (deviceRecommendations, err)"
| "patternsLoop th t keyOrder (devicePattern # patterns) (deviceRecommendations, err) =
     (case Stat th of
        StatNotExist e \<Rightarrow>
          (case getMultipathDeviceScopeRecommendations t keyOrder [] of
             Panic \<Rightarrow> Panic
           | Return recs \<Rightarrow> Return (recs, None))
      | st \<Rightarrow>
          (case ReadFile th of
             Inl e \<Rightarrow> Return ([], Some e)
           | Inr content \<Rightarrow>
               (case (case FindStringSubmatch devicePattern content of
                        Some result \<Rightarrow>
                          getMultipathDeviceScopeRecommendations t keyOrder
                            (strings_TrimSpace (submatch result ''device_block''))
                      | None \<Rightarrow> getMultipathDeviceScopeRecommendations t keyOrder []) of
                  Panic \<Rightarrow> Panic
                | Return recs \<Rightarrow>
                    patternsLoop th t keyOrder patterns
                      (recs, case st of StatError e \<Rightarrow> Some e | _ \<Rightarrow> None))))"

text \<open>\<open>patternOrder\<close> is the order in which \<open>range\<close> visits the keys of
  \<open>deviceBlockPattern\<close>.\<close>

definition GetMultipathRecommendations ::
  "tunehost \<Rightarrow> templates \<Rightarrow> (nat \<Rightarrow> string list) \<Rightarrow> string list
     \<Rightarrow> (DeviceRecommendation list \<times> string option) go" where
  "GetMultipathRecommendations th t keyOrder patternOrder =
     (case IsMultipathRequired th of
        (required, Some err) \<Rightarrow> Return ([], Some err)
      | (required, None) \<Rightarrow>
          if \<not> required then Return ([], None)
          else
            (case loadTemplateSettings th of
               Some err \<Rightarrow> Return ([], Some err)
             | None \<Rightarrow>
                 patternsLoop th t keyOrder (List.map_filter deviceBlockPattern patternOrder)
                   ([], None)))"

text \<open>The claim of the spec about the verdict, in its words: the live value, with white
  space trimmed and the quotes around it stripped, is compared with the recommended
  value.\<close>

definition stripSurroundingQuotes :: "string \<Rightarrow> string" where
  "stripSurroundingQuotes s =
     (if 2 \<le> length s \<and> hd s = CHR 0x22 \<and> last s = CHR 0x22 then butlast (tl s) else s)"

definition specVerdict :: "string \<Rightarrow> string \<Rightarrow> ComplianceStatus" where
  "specVerdict recommendedValue liveValue =
     (if strings_TrimSpace (stripSurroundingQuotes (strings_TrimSpace liveValue)) = recommendedValue
      then Recommended else NotRecommended)"

text \<open>The recommendation for one parameter of the template at \<open>index\<close>, from the live
  value found for it (\<open>None\<close> when the device block has no line for the parameter).\<close>

definition recommendationFor :: "templates \<Rightarrow> nat \<Rightarrow> string \<Rightarrow> string option \<Rightarrow> Recommendation" where
  "recommendationFor t index key live =
     getMultipathDeviceParamRecommendation t key
       (case live of None \<Rightarrow> [] | Some paramValue \<Rightarrow> strings_TrimSpace paramValue)
       (mapValue (deviceMap (recommendationMap t ! index)) key)
       (mapValue (deviceMap (descriptionMap t ! index)) key)
       (mapValue (deviceMap (severityMap t ! index)) key)"

text \<open>The live value of a parameter in the lines of a device block: the value of the
  first line, not empty, that the pattern matches with that name.\<close>

definition liveValue :: "string \<Rightarrow> string list \<Rightarrow> string option" where
  "liveValue key currentSettings =
     (case find (\<lambda>setting.
                   setting \<noteq> [] \<and>
                   (case FindStringSubmatch multipathParamPattern setting of
                      None \<Rightarrow> False
                    | Some result \<Rightarrow> submatch result ''name'' = key))
             currentSettings of
        None \<Rightarrow> None
      | Some setting \<Rightarrow>
          Some (submatch (the (FindStringSubmatch multipathParamPattern setting)) ''value''))"

text \<open>A template with one parameter for one device type, and a system with a
  \<open>multipath.conf\<close> that has a device block for Nimble and none for 3PAR.\<close>

definition demoTemplates :: templates where
  "demoTemplates =
     \<lparr>recommendationMap = [\<lparr>tm_DeviceType = ''Nimble'', deviceMap = [''no_path_retry'' \<mapsto> ''30'']\<rparr>],
      descriptionMap = [\<lparr>tm_DeviceType = ''Nimble'', deviceMap = [''no_path_retry'' \<mapsto> ''retries'']\<rparr>],
      severityMap = [\<lparr>tm_DeviceType = ''Nimble'', deviceMap = [''no_path_retry'' \<mapsto> ''critical'']\<rparr>],
      HashMountID = (\<lambda>s. s),
      AllDevices = ''all''\<rparr>"

definition demoKeyOrder :: "nat \<Rightarrow> string list" where
  "demoKeyOrder index = (if index = 0 then [''no_path_retry''] else [])"

definition demoTunehost :: tunehost where
  "demoTunehost =
     \<lparr>IsVirtualMachine = (False, None),
      IsIscsiEnabled = True,
      loadTemplateSettings = None,
      Stat = StatOk,
      ReadFile =
        Inr ''devices {\<newline>  device {\<newline>    vendor \"Nimble\"\<newline>    no_path_retry 30\<newline>  }\<newline>}\<newline>''\<rparr>"

section \<open>The configuration tree\<close>

text \<open>
  Modelled from the spec: the package \<open>mpathconfig\<close> (\<open>ParseConfig\<close>, \<open>GetSection\<close>,
  \<open>GetDeviceSection\<close>, \<open>AddSection\<close>, \<open>GetRoot\<close>, \<open>GetProperties\<close>, \<open>SaveConfig\<close>) is
  outside this file. The spec describes a tree: a root and named sections, each with a property
  map and children, located or created on demand and mutated in place. Sections are
  objects that the code holds by pointer and mutates, so they live in a store: a list of
  sections, a pointer being an index of it.
\<close>

record Section =
  name :: string
  parent :: "nat option"
  properties :: "string \<rightharpoonup> string"
  children :: "nat list"

record Config =
  root :: nat
  sections :: "Section list"

definition sectionAt :: "Config \<Rightarrow> nat \<Rightarrow> Section option" where
  "sectionAt c a = (if a < length (sections c) then Some (sections c ! a) else None)"

definition sectionName :: "Config \<Rightarrow> nat \<Rightarrow> string option" where
  "sectionName c a = map_option name (sectionAt c a)"

text \<open>\<open>s.GetProperties()[key]\<close>: a key that is missing reads as the empty string.\<close>

definition property :: "Config \<Rightarrow> nat \<Rightarrow> string \<Rightarrow> string" where
  "property c a key =
     (case sectionAt c a of
        None \<Rightarrow> []
      | Some s \<Rightarrow> (case properties s key of None \<Rightarrow> [] | Some v \<Rightarrow> v))"

text \<open>\<open>s.GetProperties()[key] = v\<close>.\<close>

definition setProperty :: "Config \<Rightarrow> nat \<Rightarrow> string \<Rightarrow> string \<Rightarrow> Config" where
  "setProperty c a key v =
     c\<lparr>sections := (sections c)
          [a := (sections c ! a)\<lparr>properties := (properties (sections c ! a))(key \<mapsto> v)\<rparr>]\<rparr>"

definition GetRoot :: "Config \<Rightarrow> nat" where
  "GetRoot c = root c"

text \<open>Modelled from the spec: \<open>GetSection(name, "")\<close> locates the first section of that
  name under the root.\<close>

definition GetSection :: "Config \<Rightarrow> string \<Rightarrow> string + nat" where
  "GetSection c sectionName' =
     (case sectionAt c (root c) of
        None \<Rightarrow> Inl (''section '' @ sectionName' @ '' not found'')
      | Some r \<Rightarrow>
          (case find (\<lambda>a. sectionName c a = Some sectionName') (children r) of
             None \<Rightarrow> Inl (''section '' @ sectionName' @ '' not found'')
           | Some a \<Rightarrow> Inr a))"

text \<open>Modelled from the spec: \<open>GetDeviceSection(deviceType)\<close> locates, in the section
  \<open>devices\<close>, the first section \<open>device\<close> whose vendor matches the device type.\<close>

definition GetDeviceSection :: "Config \<Rightarrow> string \<Rightarrow> string + nat" where
  "GetDeviceSection c deviceType =
     (case GetSection c ''devices'' of
        Inl e \<Rightarrow> Inl e
      | Inr devices \<Rightarrow>
          (case sectionAt c devices of
             None \<Rightarrow> Inl ''device section not found''
           | Some s \<Rightarrow>
               (case find (\<lambda>a. sectionName c a = Some ''device''
                               \<and> strings_Contains (property c a ''vendor'') deviceType)
                       (children s) of
                  None \<Rightarrow> Inl ''device section not found''
                | Some a \<Rightarrow> Inr a)))"

text \<open>Modelled from the spec: \<open>AddSection(name, parent)\<close> creates an empty section of
  that name as the last child of the parent; it fails when there is no parent.\<close>

definition AddSection :: "Config \<Rightarrow> string \<Rightarrow> nat \<Rightarrow> string + (nat \<times> Config)" where
  "AddSection c sectionName' p =
     (case sectionAt c p of
        None \<Rightarrow> Inl ''parent section is nil''
      | Some ps \<Rightarrow>
          (let a = length (sections c)
           in Inr (a,
                c\<lparr>sections :=
                    (sections c)[p := ps\<lparr>children := children ps @ [a]\<rparr>]
                    @ [\<lparr>name = sectionName', parent = Some p, properties = Map.empty,
                         children = []\<rparr>]\<rparr>)))"

text \<open>The file \<open>/etc/multipath.conf\<close>: what \<open>ParseConfig\<close> returns for it, and whether
  \<open>SaveConfig\<close> can write a tree back (\<open>None\<close> is success).\<close>

record conffile =
  ParseConfig :: "string + Config"
  SaveConfig :: "Config \<Rightarrow> string option"

section \<open>Applying the recommendations\<close>

text \<open>The first part of \<open>setMultipathRecommendations\<close>: the device section of the device
  type, created under \<open>devices\<close> (itself created under the root) when it is missing.\<close>

definition deviceSectionFor :: "Config \<Rightarrow> string \<Rightarrow> string + (nat \<times> Config)" where
  "deviceSectionFor config device =
     (case GetDeviceSection config device of
        Inr deviceSection \<Rightarrow> Inr (deviceSection, config)
      | Inl _ \<Rightarrow>
          (case (case GetSection config ''devices'' of
                   Inr devicesSection \<Rightarrow> Inr (devicesSection, config)
                 | Inl _ \<Rightarrow>
                     (case AddSection config ''devices'' (GetRoot config) of
                        Inl _ \<Rightarrow> Inl ''Unable to add new devices section''
                      | Inr added \<Rightarrow> Inr added)) of
             Inl e \<Rightarrow> Inl e
           | Inr (devicesSection, config1) \<Rightarrow>
               (case AddSection config1 ''device'' devicesSection of
                  Inl _ \<Rightarrow> Inl ''Unable to add new nimble device section''
                | Inr added \<Rightarrow> Inr added)))"

text \<open>The loop that writes the recommended values into the device section.\<close>

fun updateDeviceSection :: "Config \<Rightarrow> nat \<Rightarrow> Recommendation list \<Rightarrow> Config" where
  "updateDeviceSection config deviceSection [] = config"
| "updateDeviceSection config deviceSection (recommendation # recommendations) =
     updateDeviceSection
       (setProperty config deviceSection (Parameter recommendation) (Recommendation recommendation))
       deviceSection recommendations"

text \<open>The defaults section, created under the root when it is missing.\<close>

definition defaultsSectionFor :: "Config \<Rightarrow> string + (nat \<times> Config)" where
  "defaultsSectionFor config =
     (case GetSection config ''defaults'' of
        Inr defaultsSection \<Rightarrow> Inr (defaultsSection, config)
      | Inl _ \<Rightarrow>
          (case AddSection config ''defaults'' (GetRoot config) of
             Inl _ \<Rightarrow> Inl ''Unable to add new defaults section in /etc/multipath.conf''
           | Inr added \<Rightarrow> Inr added))"

text \<open>\<open>setMultipathRecommendations\<close> returns its error, and with it here the tree that
  \<open>SaveConfig\<close> wrote to the file, if it wrote one.\<close>

definition setMultipathRecommendations ::
  "conffile \<Rightarrow> Recommendation list \<Rightarrow> string \<Rightarrow> string option \<times> Config option" where
  "setMultipathRecommendations f recommendations device =
     (case ParseConfig f of
        Inl err \<Rightarrow> (Some err, None)
      | Inr config \<Rightarrow>
          (case deviceSectionFor config device of
             Inl err \<Rightarrow> (Some err, None)
           | Inr (deviceSection, config1) \<Rightarrow>
               (let config2 = updateDeviceSection config1 deviceSection recommendations
                in case defaultsSectionFor config2 of
                     Inl err \<Rightarrow> (Some err, None)
                   | Inr (defaultsSection, config3) \<Rightarrow>
                       (let value = property config3 defaultsSection ''find_multipaths'';
                            config4 =
                              (if value = ''yes'' \<or> value = []
                               then setProperty config3 defaultsSection ''find_multipaths'' ''no''
                               else config3)
                        in case SaveConfig f config4 of
                             Some err \<Rightarrow> (Some err, None)
                           | None \<Rightarrow> (None, Some config4)))))"

text \<open>The value of \<open>find_multipaths\<close> in the defaults section of a tree; empty when the
  section or the property is absent.\<close>

definition find_multipaths :: "Config \<Rightarrow> string" where
  "find_multipaths c =
     (case GetSection c ''defaults'' of
        Inl _ \<Rightarrow> []
      | Inr defaultsSection \<Rightarrow> property c defaultsSection ''find_multipaths'')"

text \<open>A configuration file with a defaults section that sets \<open>find_multipaths\<close> to
  \<open>yes\<close> and no devices section, and a recommendation to apply.\<close>

definition demoConfig :: Config where
  "demoConfig =
     \<lparr>root = 0,
      sections =
        [\<lparr>name = [], parent = None, properties = Map.empty, children = [1]\<rparr>,
         \<lparr>name = ''defaults'', parent = Some 0,
           properties = [''find_multipaths'' \<mapsto> ''yes''], children = []\<rparr>]\<rparr>"

definition demoConffile :: conffile where
  "demoConffile = \<lparr>ParseConfig = Inr demoConfig, SaveConfig = (\<lambda>config. None)\<rparr>"

definition demoRecommendation :: Recommendation where
  "demoRecommendation =
     \<lparr>ID = ''1'', Category = Multipath, Level = ''critical'', Description = [],
      Parameter = ''no_path_retry'', Value = [], Recommendation = ''30'',
      CompliantStatus = NotRecommended, Device = ''all'', FsType = [], Vendor = []\<rparr>"

text \<open>A configuration file that has neither a defaults section nor a devices section,
  and one whose defaults section sets \<open>find_multipaths\<close> to \<open>greedy\<close>. Both can be saved.\<close>

definition bareConfig :: Config where
  "bareConfig =
     \<lparr>root = 0,
      sections = [\<lparr>name = [], parent = None, properties = Map.empty, children = []\<rparr>]\<rparr>"

definition bareConffile :: conffile where
  "bareConffile = \<lparr>ParseConfig = Inr bareConfig, SaveConfig = (\<lambda>config. None)\<rparr>"

definition greedyConfig :: Config where
  "greedyConfig =
     \<lparr>root = 0,
      sections =
        [\<lparr>name = [], parent = None, properties = Map.empty, children = [1]\<rparr>,
         \<lparr>name = ''defaults'', parent = Some 0,
           properties = [''find_multipaths'' \<mapsto> ''greedy''], children = []\<rparr>]\<rparr>"

definition greedyConffile :: conffile where
  "greedyConffile = \<lparr>ParseConfig = Inr greedyConfig, SaveConfig = (\<lambda>config. None)\<rparr>"

section \<open>Properties\<close>

subsection \<open>Mount-point discovery\<close>

lemma mountPointsLoop_filter:
  "mountPointsLoop dev ls acc =
     acc @ map (\<lambda>l. strings_Fields l ! 2)
            (filter (\<lambda>l. 3 < length (strings_Fields l) \<and> strings_Contains (strings_Fields l ! 0) dev) ls)"
  by (induction ls arbitrary: acc) (simp_all add: Let_def)

lemma findMountPoints_ok:
  assumes "ExecCommandOutput h (tr @ [Lock mountMutex]) ''mount'' [] = (out, rc, None)"
  shows "findMountPointsOfMultipathDevice h dev tr =
           ((mountPointsLoop dev (strings_Split_nl out) [], None),
            tr @ [Lock mountMutex, Exec ''mount'' [], Unlock mountMutex])"
  using assms by (simp add: findMountPointsOfMultipathDevice_def)

text \<open>
  C3, as the spec states it, fails: for the mount-table line
  \<open>/dev/mapper/mpatha /data ext4 rw\<close> the function returns the third field, \<open>ext4\<close>, and
  not \<open>/data\<close>.
\<close>

theorem findMountPoints_example_counterexample:
  "fst (findMountPointsOfMultipathDevice
          (printingHost ''/dev/mapper/mpatha /data ext4 rw'') ''mpatha'' []) = ([''ext4''], None)
   \<and> fst (findMountPointsOfMultipathDevice
          (printingHost ''/dev/mapper/mpatha /data ext4 rw'') ''mpatha'' []) \<noteq> ([''/data''], None)"
  by code_simp

text \<open>
  C3 (amended). When the mount command succeeds, \<open>findMountPointsOfMultipathDevice\<close>
  returns, in the order of the mount table and with no error, the third
  white-space-separated field of every line that has more than three fields and whose
  first field contains the alias. So it returns the empty list and no error when no such
  line exists, and \<open>[/data]\<close> for the line \<open>/dev/mapper/mpatha on /data type ext4 (rw)\<close>
  of the mount command (shown by the witness).
\<close>

theorem findMountPoints_third_field:
  assumes "ExecCommandOutput h (tr @ [Lock mountMutex]) ''mount'' [] = (out, rc, None)"
  shows "fst (findMountPointsOfMultipathDevice h dev tr) =
           (map (\<lambda>l. strings_Fields l ! 2)
              (filter (\<lambda>l. 3 < length (strings_Fields l) \<and> strings_Contains (strings_Fields l ! 0) dev)
                 (strings_Split_nl out)),
            None)
         \<and> ((\<forall>l \<in> set (strings_Split_nl out).
                \<not> (3 < length (strings_Fields l) \<and> strings_Contains (strings_Fields l ! 0) dev))
              \<longrightarrow> fst (findMountPointsOfMultipathDevice h dev tr) = ([], None))"
proof -
  have r: "fst (findMountPointsOfMultipathDevice h dev tr) =
           (map (\<lambda>l. strings_Fields l ! 2)
              (filter (\<lambda>l. 3 < length (strings_Fields l) \<and> strings_Contains (strings_Fields l ! 0) dev)
                 (strings_Split_nl out)),
            None)"
    by (simp add: findMountPoints_ok [OF assms] mountPointsLoop_filter)
  have "filter (\<lambda>l. 3 < length (strings_Fields l) \<and> strings_Contains (strings_Fields l ! 0) dev)
          (strings_Split_nl out) = []"
    if "\<forall>l \<in> set (strings_Split_nl out).
          \<not> (3 < length (strings_Fields l) \<and> strings_Contains (strings_Fields l ! 0) dev)"
    using that by (simp add: filter_empty_conv)
  with r show ?thesis by simp
qed

theorem findMountPoints_third_field_witness:
  "fst (findMountPointsOfMultipathDevice
          (printingHost ''/dev/mapper/mpatha on /data type ext4 (rw)'') ''mpatha'' [])
     = ([''/data''], None)
   \<and> fst (findMountPointsOfMultipathDevice
          (printingHost ''/dev/sda1 on / type ext4 (rw)'') ''mpatha'' [])
     = ([], None)"
proof -
  have h1: "ExecCommandOutput (printingHost ''/dev/mapper/mpatha on /data type ext4 (rw)'')
              ([] @ [Lock mountMutex]) ''mount'' []
            = (''/dev/mapper/mpatha on /data type ext4 (rw)'', 0, None)"
    by (simp add: printingHost_def)
  have h2: "ExecCommandOutput (printingHost ''/dev/sda1 on / type ext4 (rw)'')
              ([] @ [Lock mountMutex]) ''mount'' []
            = (''/dev/sda1 on / type ext4 (rw)'', 0, None)"
    by (simp add: printingHost_def)
  have f1: "map (\<lambda>l. strings_Fields l ! 2)
              (filter (\<lambda>l. 3 < length (strings_Fields l) \<and> strings_Contains (strings_Fields l ! 0) ''mpatha'')
                 (strings_Split_nl ''/dev/mapper/mpatha on /data type ext4 (rw)'')) = [''/data'']"
    by code_simp
  have f2: "\<forall>l \<in> set (strings_Split_nl ''/dev/sda1 on / type ext4 (rw)'').
         \<not> (3 < length (strings_Fields l) \<and> strings_Contains (strings_Fields l ! 0) ''mpatha'')"
    by code_simp
  from findMountPoints_third_field [OF h1, of "''mpatha''"] f1
  have a: "fst (findMountPointsOfMultipathDevice
          (printingHost ''/dev/mapper/mpatha on /data type ext4 (rw)'') ''mpatha'' [])
     = ([''/data''], None)"
    by simp
  from findMountPoints_third_field [OF h2, of "''mpatha''"] f2
  have b: "fst (findMountPointsOfMultipathDevice
          (printingHost ''/dev/sda1 on / type ext4 (rw)'') ''mpatha'' [])
     = ([], None)"
    by blast
  from a b show ?thesis by blast
qed

subsection \<open>Unmounting\<close>

lemma findMountPoints_trace:
  "snd (findMountPointsOfMultipathDevice h dev tr) =
     tr @ [Lock mountMutex, Exec ''mount'' [], Unlock mountMutex]"
  by (simp add: findMountPointsOfMultipathDevice_def Let_def split: prod.splits option.splits)

lemma unmount_trace: "snd (unmount h mp tr) = tr @ [Exec ''umount'' [mp]]"
  by (simp add: unmount_def Let_def split: prod.splits option.splits)

lemma killLoop_trace:
  "\<exists>ks. snd (killLoop h mp ls tr) = tr @ ks \<and> (\<forall>e \<in> set ks. \<exists>pid. e = Kill pid)"
proof (induction ls arbitrary: tr)
  case Nil
  then show ?case by simp
next
  case (Cons l ls)
  obtain ks where ks: "snd (killLoop h mp ls tr) = tr @ ks" "\<forall>e \<in> set ks. \<exists>pid. e = Kill pid"
    using Cons.IH by blast
  have step: "\<exists>ks. snd (killLoop h mp ls (tr @ [Kill p])) = tr @ ks \<and> (\<forall>e \<in> set ks. \<exists>pid. e = Kill pid)" for p
  proof -
    obtain ks' where "snd (killLoop h mp ls (tr @ [Kill p])) = (tr @ [Kill p]) @ ks'"
      "\<forall>e \<in> set ks'. \<exists>pid. e = Kill pid"
      using Cons.IH by blast
    then have "snd (killLoop h mp ls (tr @ [Kill p])) = tr @ (Kill p # ks') \<and>
               (\<forall>e \<in> set (Kill p # ks'). \<exists>pid. e = Kill pid)"
      by simp
    then show ?thesis by blast
  qed
  have here: "\<exists>ks. tr @ [Kill p] = tr @ ks \<and> (\<forall>e \<in> set ks. \<exists>pid. e = Kill pid)" for p
    by (rule exI [of _ "[Kill p]"]) simp
  have none: "\<exists>ks. tr = tr @ ks \<and> (\<forall>e \<in> set ks. \<exists>pid. e = Kill pid)"
    by (rule exI [of _ "[]"]) simp
  show ?case
    using Cons.IH [of tr] step here none
    by (simp add: Let_def split: option.splits)
qed

lemma KillProcesses_trace:
  "\<exists>ks. snd (KillProcessesUsingMountPoints h mp tr) =
          tr @ Lock staleDeviceRemovalMutex # Exec ''fuser'' [''-mv'', mp] # ks
             @ [Unlock staleDeviceRemovalMutex]
        \<and> (\<forall>e \<in> set ks. \<exists>pid. e = Kill pid)"
proof -
  let ?tr2 = "tr @ [Lock staleDeviceRemovalMutex, Exec ''fuser'' [''-mv'', mp]]"
  obtain out rc err where ex:
    "ExecCommandOutput h (tr @ [Lock staleDeviceRemovalMutex]) ''fuser'' [''-mv'', mp] = (out, rc, err)"
    by (metis prod_cases3)
  obtain ks where ks: "snd (killLoop h mp (tl (strings_Split_nl out)) ?tr2) = ?tr2 @ ks"
    "\<forall>e \<in> set ks. \<exists>pid. e = Kill pid"
    using killLoop_trace by blast
  have "snd (KillProcessesUsingMountPoints h mp tr) = ?tr2 @ [Unlock staleDeviceRemovalMutex]
        \<or> snd (KillProcessesUsingMountPoints h mp tr) = ?tr2 @ ks @ [Unlock staleDeviceRemovalMutex]"
    using ex ks(1)
    by (auto simp: KillProcessesUsingMountPoints_def Let_def split: option.splits prod.splits)
  then show ?thesis
  proof
    assume "snd (KillProcessesUsingMountPoints h mp tr) = ?tr2 @ [Unlock staleDeviceRemovalMutex]"
    then show ?thesis by (intro exI [of _ "[]"]) simp
  next
    assume "snd (KillProcessesUsingMountPoints h mp tr) = ?tr2 @ ks @ [Unlock staleDeviceRemovalMutex]"
    with ks(2) show ?thesis by (intro exI [of _ ks]) simp
  qed
qed

lemma KillProcesses_counts:
  "\<exists>evs. snd (KillProcessesUsingMountPoints h mp tr) = tr @ evs
         \<and> killProcessesCalls m evs = (if m = mp then 1 else 0)
         \<and> unmountCalls m evs = 0"
proof -
  obtain ks where ks: "snd (KillProcessesUsingMountPoints h mp tr) =
          tr @ Lock staleDeviceRemovalMutex # Exec ''fuser'' [''-mv'', mp] # ks
             @ [Unlock staleDeviceRemovalMutex]"
        "\<forall>e \<in> set ks. \<exists>pid. e = Kill pid"
    using KillProcesses_trace by blast
  from ks(2) have a: "count_list ks (Exec c a) = 0" for c a
    by (auto simp: count_list_0_iff)
  show ?thesis
    by (rule exI [of _ "Lock staleDeviceRemovalMutex # Exec ''fuser'' [''-mv'', mp] # ks
             @ [Unlock staleDeviceRemovalMutex]"])
       (simp add: ks(1) killProcessesCalls_def unmountCalls_def a)
qed


lemma unmount_pair: "unmount h mp tr = (fst (unmount h mp tr), tr @ [Exec ''umount'' [mp]])"
  using unmount_trace [of h mp tr] by (cases "unmount h mp tr") simp

lemma unmountMountPoint_first_fails:
  assumes "fst (unmount h mp tr) = Failure e1"
    and "KillProcessesUsingMountPoints h mp (tr @ [Exec ''umount'' [mp]]) = (k, tr2)"
  shows "unmountMountPoint h mp tr =
           (case k of
              Failure e2 \<Rightarrow>
                (Failure (''Unable to kill the processes using the mount point '' @ mp @ '': '' @ e2), tr2)
            | Panicked \<Rightarrow> (Panicked, tr2)
            | Success \<Rightarrow> unmount h mp tr2)"
proof -
  have "unmount h mp tr = (Failure e1, tr @ [Exec ''umount'' [mp]])"
    using assms(1) unmount_pair [of h mp tr] by simp
  then show ?thesis
    using assms(2) by (simp add: unmountMountPoint_def split: outcome.splits)
qed

lemma unmountMountPoint_kill_bound:
  "\<exists>evs. snd (unmountMountPoint h mp tr) = tr @ evs
         \<and> killProcessesCalls m evs \<le> (if m = mp then 1 else 0)"
proof (cases "fst (unmount h mp tr)")
  case Success
  then have "unmountMountPoint h mp tr = (Success, tr @ [Exec ''umount'' [mp]])"
    using unmount_pair [of h mp tr] by (simp add: unmountMountPoint_def)
  then show ?thesis
    by (intro exI [of _ "[Exec ''umount'' [mp]]"]) (simp add: killProcessesCalls_def)
next
  case Panicked
  then have "unmountMountPoint h mp tr = (Panicked, tr @ [Exec ''umount'' [mp]])"
    using unmount_pair [of h mp tr] by (simp add: unmountMountPoint_def)
  then show ?thesis
    by (intro exI [of _ "[Exec ''umount'' [mp]]"]) (simp add: killProcessesCalls_def)
next
  case (Failure e1)
  let ?tr1 = "tr @ [Exec ''umount'' [mp]]"
  obtain k tr2 where k: "KillProcessesUsingMountPoints h mp ?tr1 = (k, tr2)"
    by (cases "KillProcessesUsingMountPoints h mp ?tr1")
  obtain evs where evs: "tr2 = ?tr1 @ evs" "killProcessesCalls m evs = (if m = mp then 1 else 0)"
    using KillProcesses_counts [of h mp ?tr1 m] k by auto
  have body: "unmountMountPoint h mp tr =
           (case k of
              Failure e2 \<Rightarrow>
                (Failure (''Unable to kill the processes using the mount point '' @ mp @ '': '' @ e2), tr2)
            | Panicked \<Rightarrow> (Panicked, tr2)
            | Success \<Rightarrow> unmount h mp tr2)"
    by (rule unmountMountPoint_first_fails [OF Failure k])
  have "snd (unmountMountPoint h mp tr) = tr2 \<or> snd (unmountMountPoint h mp tr) = tr2 @ [Exec ''umount'' [mp]]"
    using body unmount_trace [of h mp tr2] by (cases k) simp_all
  then show ?thesis
  proof
    assume "snd (unmountMountPoint h mp tr) = tr2"
    then show ?thesis
      using evs by (intro exI [of _ "Exec ''umount'' [mp] # evs"]) (simp add: killProcessesCalls_def)
  next
    assume "snd (unmountMountPoint h mp tr) = tr2 @ [Exec ''umount'' [mp]]"
    then show ?thesis
      using evs
      by (intro exI [of _ "Exec ''umount'' [mp] # evs @ [Exec ''umount'' [mp]]"])
         (simp add: killProcessesCalls_def)
  qed
qed

lemma unmountLoop_kill_bound:
  "\<exists>evs. snd (unmountLoop h mps tr) = tr @ evs \<and> killProcessesCalls m evs \<le> count_list mps m"
proof (induction mps arbitrary: tr)
  case Nil
  show ?case by (simp add: killProcessesCalls_def)
next
  case (Cons mp mps)
  obtain r tr1 where b: "unmountMountPoint h mp tr = (r, tr1)"
    by (cases "unmountMountPoint h mp tr")
  obtain evs where evs: "tr1 = tr @ evs" "killProcessesCalls m evs \<le> (if m = mp then 1 else 0)"
    using unmountMountPoint_kill_bound [of h mp tr m] b by auto
  show ?case
  proof (cases "r = Success")
    case True
    obtain evs' where evs': "snd (unmountLoop h mps tr1) = tr1 @ evs'"
      "killProcessesCalls m evs' \<le> count_list mps m"
      using Cons.IH by blast
    have "snd (unmountLoop h (mp # mps) tr) = tr @ (evs @ evs')"
      using b True evs(1) evs'(1) by simp
    moreover have "killProcessesCalls m (evs @ evs') \<le> count_list (mp # mps) m"
      using evs(2) evs'(2) by (auto simp: killProcessesCalls_def)
    ultimately show ?thesis by blast
  next
    case False
    then have "snd (unmountLoop h (mp # mps) tr) = tr @ evs"
      using b evs(1) by (cases r) simp_all
    moreover have "killProcessesCalls m evs \<le> count_list (mp # mps) m"
      using evs(2) by (auto split: if_splits)
    ultimately show ?thesis by blast
  qed
qed

lemma unmountLoop_append:
  "unmountLoop h pre tr = (Success, tr1) \<Longrightarrow> unmountLoop h (pre @ rest) tr = unmountLoop h rest tr1"
proof (induction pre arbitrary: tr)
  case Nil
  then show ?case by simp
next
  case (Cons mp pre)
  obtain r t where b: "unmountMountPoint h mp tr = (r, t)"
    by (cases "unmountMountPoint h mp tr")
  show ?case
  proof (cases r)
    case Success
    with Cons b show ?thesis by simp
  next
    case (Failure e)
    with Cons.prems b show ?thesis by simp
  next
    case Panicked
    with Cons.prems b show ?thesis by simp
  qed
qed

lemma Unmount_with_mount_points:
  assumes "findMountPointsOfMultipathDevice h dev tr = ((mps, None), tr0)" and "mps \<noteq> []"
  shows "UnmountMultipathDevice h dev tr =
           (fst (unmountLoop h mps (tr0 @ [Lock umountMutex])),
            snd (unmountLoop h mps (tr0 @ [Lock umountMutex])) @ [Unlock umountMutex])"
  using assms by (simp add: UnmountMultipathDevice_def split: prod.splits)


text \<open>
  C1, as the spec states it, fails: on a host where \<open>umount\<close> fails and \<open>fuser\<close> fails
  too, the first unmount of \<open>/data\<close> fails and \<open>KillProcessesUsingMountPoints\<close> is
  called, but the unmount is not retried: \<open>umount\<close> runs once and the teardown aborts.
\<close>

theorem unmount_retry_counterexample:
  "UnmountMultipathDevice stuckHost ''mpatha'' [] =
     (Failure ''Unable to kill the processes using the mount point /data: exit status 1'',
      [Lock mountMutex, Exec ''mount'' [], Unlock mountMutex, Lock umountMutex,
       Exec ''umount'' [''/data''],
       Lock staleDeviceRemovalMutex, Exec ''fuser'' [''-mv'', ''/data''],
       Unlock staleDeviceRemovalMutex, Unlock umountMutex])
   \<and> fst (unmount stuckHost ''/data''
            [Lock mountMutex, Exec ''mount'' [], Unlock mountMutex, Lock umountMutex])
       = Failure ''exit status 32''
   \<and> unmountCalls ''/data'' (snd (UnmountMultipathDevice stuckHost ''mpatha'' [])) = 1"
  by code_simp

text \<open>
  C1 (amended). Let the discovered mount points be \<open>pre @ mp # post\<close>, let the loop have
  unmounted those of \<open>pre\<close>, and let the first unmount of \<open>mp\<close> fail. Then
  \<open>KillProcessesUsingMountPoints\<close> is called for \<open>mp\<close> exactly once, after that one
  \<open>umount\<close>. If it fails, the teardown aborts with an error and \<open>umount\<close> is not retried.
  If it succeeds, \<open>umount\<close> is retried exactly once; when the retry fails as well the
  teardown aborts with the error of the retry, and when it succeeds the loop goes on with
  \<open>post\<close>. Over the whole call, the processes of a mount point are killed at most once
  for each time the mount point was discovered.
\<close>

theorem unmount_kill_once_retry_once:
  assumes disc: "findMountPointsOfMultipathDevice h dev tr = ((pre @ mp # post, None), tr0)"
    and pre: "unmountLoop h pre (tr0 @ [Lock umountMutex]) = (Success, tr1)"
    and first: "fst (unmount h mp tr1) = Failure e1"
    and kill: "KillProcessesUsingMountPoints h mp (tr1 @ [Exec ''umount'' [mp]]) = (k, tr2)"
  shows "killProcessesCalls mp (drop (length tr1) tr2) = 1
       \<and> unmountCalls mp (drop (length tr1) tr2) = 1
       \<and> (\<forall>e2. k = Failure e2 \<longrightarrow>
             UnmountMultipathDevice h dev tr =
               (Failure (''Unable to kill the processes using the mount point '' @ mp @ '': '' @ e2),
                tr2 @ [Unlock umountMutex]))
       \<and> (\<forall>e3. k = Success \<and> fst (unmount h mp tr2) = Failure e3 \<longrightarrow>
             UnmountMultipathDevice h dev tr =
               (Failure e3, tr2 @ [Exec ''umount'' [mp], Unlock umountMutex]))
       \<and> (k = Success \<and> fst (unmount h mp tr2) = Success \<longrightarrow>
             UnmountMultipathDevice h dev tr =
               (fst (unmountLoop h post (tr2 @ [Exec ''umount'' [mp]])),
                snd (unmountLoop h post (tr2 @ [Exec ''umount'' [mp]])) @ [Unlock umountMutex]))
       \<and> (\<forall>m. killProcessesCalls m (drop (length tr) (snd (UnmountMultipathDevice h dev tr)))
                \<le> count_list (pre @ mp # post) m)"
proof -
  let ?mps = "pre @ mp # post"
  let ?t = "tr0 @ [Lock umountMutex]"
  have whole: "UnmountMultipathDevice h dev tr =
           (fst (unmountLoop h ?mps ?t), snd (unmountLoop h ?mps ?t) @ [Unlock umountMutex])"
    by (rule Unmount_with_mount_points [OF disc]) simp
  have loop: "unmountLoop h ?mps ?t = unmountLoop h (mp # post) tr1"
    by (rule unmountLoop_append [OF pre])
  have body: "unmountMountPoint h mp tr1 =
           (case k of
              Failure e2 \<Rightarrow>
                (Failure (''Unable to kill the processes using the mount point '' @ mp @ '': '' @ e2), tr2)
            | Panicked \<Rightarrow> (Panicked, tr2)
            | Success \<Rightarrow> unmount h mp tr2)"
    by (rule unmountMountPoint_first_fails [OF first kill])
  obtain evs where evs: "tr2 = (tr1 @ [Exec ''umount'' [mp]]) @ evs"
    "killProcessesCalls mp evs = 1" "unmountCalls mp evs = 0"
    using KillProcesses_counts [of h mp "tr1 @ [Exec ''umount'' [mp]]" mp] kill by auto
  have c1: "killProcessesCalls mp (drop (length tr1) tr2) = 1"
    using evs by (simp add: killProcessesCalls_def)
  have c2: "unmountCalls mp (drop (length tr1) tr2) = 1"
    using evs by (simp add: unmountCalls_def)
  have a: "UnmountMultipathDevice h dev tr =
               (Failure (''Unable to kill the processes using the mount point '' @ mp @ '': '' @ e2),
                tr2 @ [Unlock umountMutex])" if "k = Failure e2" for e2
    using whole loop body that by simp
  have b: "UnmountMultipathDevice h dev tr =
               (Failure e3, tr2 @ [Exec ''umount'' [mp], Unlock umountMutex])"
    if "k = Success \<and> fst (unmount h mp tr2) = Failure e3" for e3
  proof -
    have "unmount h mp tr2 = (Failure e3, tr2 @ [Exec ''umount'' [mp]])"
      using that unmount_pair [of h mp tr2] by simp
    then show ?thesis using whole loop body that by simp
  qed
  have c: "UnmountMultipathDevice h dev tr =
               (fst (unmountLoop h post (tr2 @ [Exec ''umount'' [mp]])),
                snd (unmountLoop h post (tr2 @ [Exec ''umount'' [mp]])) @ [Unlock umountMutex])"
    if "k = Success \<and> fst (unmount h mp tr2) = Success"
  proof -
    have "unmount h mp tr2 = (Success, tr2 @ [Exec ''umount'' [mp]])"
      using that unmount_pair [of h mp tr2] by simp
    then show ?thesis using whole loop body that by simp
  qed
  have d: "killProcessesCalls m (drop (length tr) (snd (UnmountMultipathDevice h dev tr)))
                \<le> count_list ?mps m" for m
  proof -
    have tr0: "tr0 = tr @ [Lock mountMutex, Exec ''mount'' [], Unlock mountMutex]"
      using findMountPoints_trace [of h dev tr] disc by simp
    obtain es where es: "snd (unmountLoop h ?mps ?t) = ?t @ es"
      "killProcessesCalls m es \<le> count_list ?mps m"
      using unmountLoop_kill_bound by blast
    have "drop (length tr) (snd (UnmountMultipathDevice h dev tr)) =
            [Lock mountMutex, Exec ''mount'' [], Unlock mountMutex, Lock umountMutex] @ es
              @ [Unlock umountMutex]"
      using whole es(1) tr0 by simp
    then show ?thesis using es(2) by (simp add: killProcessesCalls_def)
  qed
  from c1 c2 a b c d show ?thesis by blast
qed

theorem unmount_kill_once_retry_once_witness:
  "UnmountMultipathDevice busyHost ''mpatha'' [] =
     (Success,
      [Lock mountMutex, Exec ''mount'' [], Unlock mountMutex, Lock umountMutex,
       Exec ''umount'' [''/data''],
       Lock staleDeviceRemovalMutex, Exec ''fuser'' [''-mv'', ''/data''], Kill 1234,
       Unlock staleDeviceRemovalMutex,
       Exec ''umount'' [''/data''], Unlock umountMutex])
   \<and> killProcessesCalls ''/data''
        (drop (length [Lock mountMutex, Exec ''mount'' [], Unlock mountMutex, Lock umountMutex])
           [Lock mountMutex, Exec ''mount'' [], Unlock mountMutex, Lock umountMutex,
            Exec ''umount'' [''/data''],
            Lock staleDeviceRemovalMutex, Exec ''fuser'' [''-mv'', ''/data''], Kill 1234,
            Unlock staleDeviceRemovalMutex]) = 1"
proof -
  let ?tr0 = "[Lock mountMutex, Exec ''mount'' [], Unlock mountMutex]"
  let ?tr1 = "[Lock mountMutex, Exec ''mount'' [], Unlock mountMutex, Lock umountMutex]"
  let ?tr2 = "[Lock mountMutex, Exec ''mount'' [], Unlock mountMutex, Lock umountMutex,
            Exec ''umount'' [''/data''],
            Lock staleDeviceRemovalMutex, Exec ''fuser'' [''-mv'', ''/data''], Kill 1234,
            Unlock staleDeviceRemovalMutex]"
  have h1: "findMountPointsOfMultipathDevice busyHost ''mpatha'' [] = (([] @ ''/data'' # [], None), ?tr0)"
    by code_simp
  have h2: "unmountLoop busyHost [] (?tr0 @ [Lock umountMutex]) = (Success, ?tr1)"
    by simp
  have h3: "fst (unmount busyHost ''/data'' ?tr1) = Failure ''exit status 32''"
    by code_simp
  have h4: "KillProcessesUsingMountPoints busyHost ''/data'' (?tr1 @ [Exec ''umount'' [''/data'']])
              = (Success, ?tr2)"
    by code_simp
  have h5: "fst (unmount busyHost ''/data'' ?tr2) = Success"
    by code_simp
  have h6: "unmountLoop busyHost [] (?tr2 @ [Exec ''umount'' [''/data'']])
              = (Success, ?tr2 @ [Exec ''umount'' [''/data'']])"
    by simp
  from unmount_kill_once_retry_once [OF h1 h2 h3 h4] h5 h6
  show ?thesis by simp
qed

text \<open>
  C9. When mount-point discovery returns an empty list, \<open>UnmountMultipathDevice\<close>
  returns success at once: the only events of the call are those of the discovery itself,
  so the unmount lock is not taken, and nothing is unmounted, listed or killed.
\<close>

theorem unmount_without_mount_points:
  assumes "fst (findMountPointsOfMultipathDevice h dev tr) = ([], None)"
  shows "UnmountMultipathDevice h dev tr =
           (Success, tr @ [Lock mountMutex, Exec ''mount'' [], Unlock mountMutex])
       \<and> Lock umountMutex \<notin> set (drop (length tr) (snd (UnmountMultipathDevice h dev tr)))
       \<and> (\<forall>mp. unmountCalls mp (drop (length tr) (snd (UnmountMultipathDevice h dev tr))) = 0
              \<and> killProcessesCalls mp (drop (length tr) (snd (UnmountMultipathDevice h dev tr))) = 0)
       \<and> (\<forall>pid. Kill pid \<notin> set (drop (length tr) (snd (UnmountMultipathDevice h dev tr))))"
proof -
  have "findMountPointsOfMultipathDevice h dev tr =
          (([], None), tr @ [Lock mountMutex, Exec ''mount'' [], Unlock mountMutex])"
    using assms findMountPoints_trace [of h dev tr]
    by (cases "findMountPointsOfMultipathDevice h dev tr") simp
  then have "UnmountMultipathDevice h dev tr =
           (Success, tr @ [Lock mountMutex, Exec ''mount'' [], Unlock mountMutex])"
    by (simp add: UnmountMultipathDevice_def)
  then show ?thesis
    by (simp add: unmountCalls_def killProcessesCalls_def)
qed

theorem unmount_without_mount_points_witness:
  "UnmountMultipathDevice (printingHost ''/dev/sda1 on / type ext4 (rw)'') ''mpatha'' [] =
     (Success, [Lock mountMutex, Exec ''mount'' [], Unlock mountMutex])"
proof -
  have "fst (findMountPointsOfMultipathDevice (printingHost ''/dev/sda1 on / type ext4 (rw)'')
               ''mpatha'' []) = ([], None)"
    by code_simp
  from unmount_without_mount_points [OF this] show ?thesis by simp
qed


subsection \<open>Flushing\<close>

lemma isPrefix_append: "isPrefix p (p @ s)"
  by (induction p) simp_all

lemma strings_Contains_prefix: "isPrefix sub s \<Longrightarrow> strings_Contains s sub"
  by (cases s; cases sub) simp_all

lemma strings_Contains_middle: "strings_Contains (a @ b @ c) b"
proof (induction a)
  case Nil
  show ?case by (simp add: strings_Contains_prefix isPrefix_append)
next
  case (Cons x a)
  then show ?case by simp
qed

lemma displayDeviceInfo_trace:
  "snd (displayDeviceInfo h dev tr) = tr @ [Exec ''dmsetup'' [''info'', dev]]"
  by (simp add: displayDeviceInfo_def Let_def split: prod.splits option.splits)

lemma listTheProcessesUsingDevice_trace:
  "snd (listTheProcessesUsingDevice h dev tr) = tr @ [Exec ''fuser'' [''-mv'', ''/dev/mapper/'' @ dev]]"
  by (simp add: listTheProcessesUsingDevice_def Let_def split: prod.splits option.splits)

text \<open>
  C2, as the spec states it, fails: when both the flush and the forced removal fail, the
  error returned carries the cause of the forced removal only; the cause of the flush
  failure (\<open>map in use\<close> here) is not part of it.
\<close>

theorem flush_error_counterexample:
  "fst (FlushMultipathDevice heldMapHost ''mpatha'' []) =
     Failure ''Unable to remove the multipath device mpatha by force as well: device busy''
   \<and> ExecCommandOutput heldMapHost [Lock staleDeviceRemovalMutex] ''multipath'' [''-f'', ''mpatha'']
       = ([], 1, Some ''map in use'')
   \<and> \<not> strings_Contains
          ''Unable to remove the multipath device mpatha by force as well: device busy''
          ''map in use''"
  by code_simp

text \<open>
  C2 (amended). When the graceful flush \<open>multipath -f\<close> fails, \<open>FlushMultipathDevice\<close>
  runs \<open>dmsetup info\<close>, \<open>fuser -mv\<close> and then the forced removal \<open>dmsetup remove -f\<close>,
  exactly once. If the forced removal succeeds the call succeeds. If it fails, the error
  returned is \<open>Unable to remove the multipath device <alias> by force as well: <cause>\<close>:
  it names the alias and the cause of the forced-removal failure (not the cause of the
  flush failure, which is only logged).
\<close>

theorem flush_forced_removal_once:
  assumes flush: "ExecCommandOutput h (tr @ [Lock staleDeviceRemovalMutex]) ''multipath'' [''-f'', dev]
                    = (out1, rc1, Some e1)"
    and force: "ExecCommandOutput h
                  (tr @ [Lock staleDeviceRemovalMutex, Exec ''multipath'' [''-f'', dev],
                         Exec ''dmsetup'' [''info'', dev],
                         Exec ''fuser'' [''-mv'', ''/dev/mapper/'' @ dev]])
                  ''dmsetup'' [''remove'', ''-f'', dev] = (out3, rc3, err3)"
  shows "snd (FlushMultipathDevice h dev tr) =
           tr @ [Lock staleDeviceRemovalMutex, Exec ''multipath'' [''-f'', dev],
                 Exec ''dmsetup'' [''info'', dev],
                 Exec ''fuser'' [''-mv'', ''/dev/mapper/'' @ dev],
                 Exec ''dmsetup'' [''remove'', ''-f'', dev],
                 Unlock staleDeviceRemovalMutex]
       \<and> count_list (drop (length tr) (snd (FlushMultipathDevice h dev tr)))
            (Exec ''dmsetup'' [''remove'', ''-f'', dev]) = 1
       \<and> (err3 = None \<longrightarrow> fst (FlushMultipathDevice h dev tr) = Success)
       \<and> (\<forall>e3. err3 = Some e3 \<longrightarrow>
             fst (FlushMultipathDevice h dev tr) =
               Failure (''Unable to remove the multipath device '' @ dev @ '' by force as well: '' @ e3)
             \<and> strings_Contains
                 (''Unable to remove the multipath device '' @ dev @ '' by force as well: '' @ e3) dev
             \<and> strings_Contains
                 (''Unable to remove the multipath device '' @ dev @ '' by force as well: '' @ e3) e3)"
proof -
  let ?t2 = "tr @ [Lock staleDeviceRemovalMutex, Exec ''multipath'' [''-f'', dev]]"
  let ?t4 = "?t2 @ [Exec ''dmsetup'' [''info'', dev], Exec ''fuser'' [''-mv'', ''/dev/mapper/'' @ dev]]"
  have d: "snd (displayDeviceInfo h dev ?t2) = ?t2 @ [Exec ''dmsetup'' [''info'', dev]]"
    by (rule displayDeviceInfo_trace)
  have l: "snd (listTheProcessesUsingDevice h dev (?t2 @ [Exec ''dmsetup'' [''info'', dev]])) = ?t4"
    using listTheProcessesUsingDevice_trace [of h dev "?t2 @ [Exec ''dmsetup'' [''info'', dev]]"]
    by simp
  have f: "forceDeleteMultipathDevice h dev ?t4 =
             ((case err3 of None \<Rightarrow> Success | Some e \<Rightarrow> Failure e),
              ?t4 @ [Exec ''dmsetup'' [''remove'', ''-f'', dev]])"
    using force by (simp add: forceDeleteMultipathDevice_def split: option.splits)
  have run: "FlushMultipathDevice h dev tr =
          ((case err3 of
              None \<Rightarrow> Success
            | Some e3 \<Rightarrow>
                Failure (''Unable to remove the multipath device '' @ dev @ '' by force as well: '' @ e3)),
           tr @ [Lock staleDeviceRemovalMutex, Exec ''multipath'' [''-f'', dev],
                 Exec ''dmsetup'' [''info'', dev],
                 Exec ''fuser'' [''-mv'', ''/dev/mapper/'' @ dev],
                 Exec ''dmsetup'' [''remove'', ''-f'', dev],
                 Unlock staleDeviceRemovalMutex])"
    using flush d l f
    by (simp add: FlushMultipathDevice_def Let_def case_prod_beta split: option.splits)
  have names: "strings_Contains
                 (''Unable to remove the multipath device '' @ dev @ '' by force as well: '' @ e3) dev" for e3
    by (rule strings_Contains_middle)
  have cause: "strings_Contains
                 (''Unable to remove the multipath device '' @ dev @ '' by force as well: '' @ e3) e3" for e3
    using strings_Contains_middle
            [of "''Unable to remove the multipath device '' @ dev @ '' by force as well: ''" e3 "[]"]
    by simp
  show ?thesis
    using names cause by (simp add: run)
qed

theorem flush_forced_removal_once_witness:
  "FlushMultipathDevice heldMapHost ''mpatha'' [] =
     (Failure ''Unable to remove the multipath device mpatha by force as well: device busy'',
      [Lock staleDeviceRemovalMutex, Exec ''multipath'' [''-f'', ''mpatha''],
       Exec ''dmsetup'' [''info'', ''mpatha''],
       Exec ''fuser'' [''-mv'', ''/dev/mapper/mpatha''],
       Exec ''dmsetup'' [''remove'', ''-f'', ''mpatha''],
       Unlock staleDeviceRemovalMutex])"
proof -
  have h1: "ExecCommandOutput heldMapHost ([] @ [Lock staleDeviceRemovalMutex]) ''multipath''
              [''-f'', ''mpatha''] = ([], 1, Some ''map in use'')"
    by (simp add: heldMapHost_def)
  have h2: "ExecCommandOutput heldMapHost
                  ([] @ [Lock staleDeviceRemovalMutex, Exec ''multipath'' [''-f'', ''mpatha''],
                         Exec ''dmsetup'' [''info'', ''mpatha''],
                         Exec ''fuser'' [''-mv'', ''/dev/mapper/'' @ ''mpatha'']])
                  ''dmsetup'' [''remove'', ''-f'', ''mpatha''] = ([], 1, Some ''device busy'')"
    by (simp add: heldMapHost_def)
  from flush_forced_removal_once [OF h1 h2]
  show ?thesis by (cases "FlushMultipathDevice heldMapHost ''mpatha'' []") simp
qed

subsection \<open>iSCSI targets\<close>

lemma targetPortalsLoop_filter:
  "targetPortalsLoop w ps acc =
     acc @ map (\<lambda>p. \<lparr>Address = PortalAddress p, Port = strconv_Itoa (uint (Socket p))\<rparr>)
             (filter (\<lambda>p. To4 (ParseIP w (PortalAddress p)) \<noteq> []) ps)"
  by (induction ps arbitrary: acc) simp_all

text \<open>
  C5, as the spec states it, fails: a portal whose address is the IPv4-mapped IPv6 literal
  \<open>::ffff:10.0.0.5\<close> is not an IPv4 literal, and \<open>getTargetPortals\<close> keeps it.
\<close>

theorem getTargetPortals_mapped_counterexample:
  "getTargetPortals mappedPortalHost ''iqn.host'' ''iqn.b'' =
     (Some [\<lparr>Address = ''::ffff:10.0.0.5'', Port = ''3260''\<rparr>], None)
   \<and> \<not> isIPv4Literal ''::ffff:10.0.0.5''"
  by code_simp

text \<open>
  C5 (amended). When the portal enumeration returns a list of portals, \<open>getTargetPortals\<close>
  returns, with no error, exactly the portals whose address passes the test of the code,
  \<open>net.ParseIP(address).To4() != nil\<close> (an address that \<open>net.ParseIP\<close> accepts and that has
  a 4-byte form), in the order of the enumeration, each with its address and its port in
  decimal. The other portals are left out and raise no error.
\<close>

theorem getTargetPortals_ipv4_only:
  assumes "ReportIScsiTargetPortals w initiatorName targetName = Inr portals"
  shows "getTargetPortals w initiatorName targetName =
           (Some (map (\<lambda>p. \<lparr>Address = PortalAddress p, Port = strconv_Itoa (uint (Socket p))\<rparr>)
                    (filter (\<lambda>p. To4 (ParseIP w (PortalAddress p)) \<noteq> []) portals)),
            None)"
  using assms by (simp add: getTargetPortals_def targetPortalsLoop_filter)

theorem getTargetPortals_ipv4_only_witness:
  "getTargetPortals demoWinhost ''iqn.host'' ''iqn.b'' =
     (Some [\<lparr>Address = ''10.0.0.5'', Port = ''3260''\<rparr>, \<lparr>Address = ''10.0.0.6'', Port = ''3261''\<rparr>],
      None)"
proof -
  have h: "ReportIScsiTargetPortals demoWinhost ''iqn.host'' ''iqn.b'' = Inr demoPortals"
    by (simp add: demoWinhost_def)
  have f: "map (\<lambda>p. \<lparr>Address = PortalAddress p, Port = strconv_Itoa (uint (Socket p))\<rparr>)
             (filter (\<lambda>p. To4 (ParseIP demoWinhost (PortalAddress p)) \<noteq> []) demoPortals)
           = [\<lparr>Address = ''10.0.0.5'', Port = ''3260''\<rparr>, \<lparr>Address = ''10.0.0.6'', Port = ''3261''\<rparr>]"
    by code_simp
  from getTargetPortals_ipv4_only [OF h] f show ?thesis by simp
qed

lemma iscsiTargetOfMapping_returns:
  assumes "iscsiPlugin plugin = Some gts"
  shows "\<exists>t st'. iscsiTargetOfMapping plugin w m st = Return (t, st') \<and> Name t = TargetName m"
  using assms
  by (auto simp: iscsiTargetOfMapping_def Let_def split: prod.splits option.splits go.splits)

lemma targetMappingsLoop_find:
  "targetMappingsLoop plugin w a mappings st =
           (case find (\<lambda>m. OSTargetNumber m = ucast (TargetId a) \<and> OSBusNumber m = ucast (PathId a))
                   mappings of
              None \<Rightarrow> Return (None, st)
            | Some m \<Rightarrow>
                (case iscsiTargetOfMapping plugin w m st of
                   Panic \<Rightarrow> Panic
                 | Return (t, st') \<Rightarrow> Return (Some t, st')))"
  by (induction mappings) simp_all

text \<open>
  C4. When the SCSI address of the device resolves (and the plugin has its iSCSI plugin,
  which the caller checks), \<open>getIscsiTarget\<close> finds the first mapping, in list order,
  whose target number and bus number equal the \<open>TargetId\<close> and \<open>PathId\<close> of the
  address. It returns the target record built from that mapping, named after the target
  of the mapping, and no error; when no mapping matches it returns no record and the
  \<open>NotFound\<close> error.
\<close>

theorem getIscsiTarget_first_match:
  assumes addr: "GetScsiAddress w devicePathID = Inr a"
    and plug: "iscsiPlugin plugin = Some gts"
  shows "(case find (\<lambda>m. OSTargetNumber m = ucast (TargetId a) \<and> OSBusNumber m = ucast (PathId a))
                 mappings of
            None \<Rightarrow>
              getIscsiTarget plugin w devicePathID mappings st =
                Return ((None, Some (ChapiError NotFound errorMessageUnableLocateIscsiTarget)), st)
          | Some m \<Rightarrow>
              (\<exists>t st'. iscsiTargetOfMapping plugin w m st = Return (t, st')
                     \<and> getIscsiTarget plugin w devicePathID mappings st = Return ((Some t, None), st')
                     \<and> Name t = TargetName m))"
proof (cases "find (\<lambda>m. OSTargetNumber m = ucast (TargetId a) \<and> OSBusNumber m = ucast (PathId a)) mappings")
  case None
  then show ?thesis
    using addr by (simp add: getIscsiTarget_def targetMappingsLoop_find)
next
  case (Some m)
  obtain t st' where t: "iscsiTargetOfMapping plugin w m st = Return (t, st')" "Name t = TargetName m"
    using iscsiTargetOfMapping_returns [OF plug] by blast
  then show ?thesis
    using addr Some by (simp add: getIscsiTarget_def targetMappingsLoop_find)
qed


theorem getIscsiTarget_first_match_witness:
  "(case getIscsiTarget demoPlugin demoWinhost ''disk1'' demoMappings (Map.empty, Map.empty) of
      Panic \<Rightarrow> False
    | Return (r, st) \<Rightarrow>
        r = (Some \<lparr>Name = ''iqn.b'', TargetScope = ''volume'',
                   TargetPortals = Some [\<lparr>Address = ''10.0.0.5'', Port = ''3260''\<rparr>,
                                         \<lparr>Address = ''10.0.0.6'', Port = ''3261''\<rparr>]\<rparr>,
             None))
   \<and> (case getIscsiTarget demoPlugin demoWinhost ''disk1'' (take 1 demoMappings) (Map.empty, Map.empty) of
      Panic \<Rightarrow> False
    | Return (r, st) \<Rightarrow> r = (None, Some (ChapiError NotFound ''unable to locate iSCSI target'')))"
proof -
  have h1: "GetScsiAddress demoWinhost ''disk1'' = Inr \<lparr>PortNumber = 2, PathId = 0, TargetId = 1, Lun = 0\<rparr>"
    by (simp add: demoWinhost_def)
  have h2: "iscsiPlugin demoPlugin = Some (\<lambda>targetName. (''volume'', None))"
    by (simp add: demoPlugin_def)
  have f1: "find (\<lambda>m. OSTargetNumber m = ucast (TargetId \<lparr>PortNumber = 2, PathId = 0, TargetId = 1, Lun = 0\<rparr>)
                    \<and> OSBusNumber m = ucast (PathId \<lparr>PortNumber = 2, PathId = 0, TargetId = 1, Lun = 0\<rparr>))
              demoMappings
            = Some \<lparr>InitiatorName = ''iqn.host'', TargetName = ''iqn.b'', OSBusNumber = 0, OSTargetNumber = 1\<rparr>"
    by (simp add: demoMappings_def)
  have f2: "find (\<lambda>m. OSTargetNumber m = ucast (TargetId \<lparr>PortNumber = 2, PathId = 0, TargetId = 1, Lun = 0\<rparr>)
                    \<and> OSBusNumber m = ucast (PathId \<lparr>PortNumber = 2, PathId = 0, TargetId = 1, Lun = 0\<rparr>))
              (take 1 demoMappings) = None"
    by (simp add: demoMappings_def)
  have p: "fst (getTargetPortals demoWinhost ''iqn.host'' ''iqn.b'') =
             Some [\<lparr>Address = ''10.0.0.5'', Port = ''3260''\<rparr>, \<lparr>Address = ''10.0.0.6'', Port = ''3261''\<rparr>]"
    by code_simp
  have b: "\<exists>st'. iscsiTargetOfMapping demoPlugin demoWinhost
             \<lparr>InitiatorName = ''iqn.host'', TargetName = ''iqn.b'', OSBusNumber = 0, OSTargetNumber = 1\<rparr>
             (Map.empty, Map.empty)
           = Return (\<lparr>Name = ''iqn.b'', TargetScope = ''volume'',
                   TargetPortals = Some [\<lparr>Address = ''10.0.0.5'', Port = ''3260''\<rparr>,
                                         \<lparr>Address = ''10.0.0.6'', Port = ''3261''\<rparr>]\<rparr>, st')"
    using p by (simp add: iscsiTargetOfMapping_def GetTargetType_def demoPlugin_def Let_def)
  from getIscsiTarget_first_match [OF h1 h2, of demoMappings "(Map.empty, Map.empty)"] f1 b
  have a: "(case getIscsiTarget demoPlugin demoWinhost ''disk1'' demoMappings (Map.empty, Map.empty) of
      Panic \<Rightarrow> False
    | Return (r, st) \<Rightarrow>
        r = (Some \<lparr>Name = ''iqn.b'', TargetScope = ''volume'',
                   TargetPortals = Some [\<lparr>Address = ''10.0.0.5'', Port = ''3260''\<rparr>,
                                         \<lparr>Address = ''10.0.0.6'', Port = ''3261''\<rparr>]\<rparr>,
             None))"
    by auto
  from getIscsiTarget_first_match [OF h1 h2, of "take 1 demoMappings" "(Map.empty, Map.empty)"] f2
  have c: "(case getIscsiTarget demoPlugin demoWinhost ''disk1'' (take 1 demoMappings) (Map.empty, Map.empty) of
      Panic \<Rightarrow> False
    | Return (r, st) \<Rightarrow> r = (None, Some (ChapiError NotFound ''unable to locate iSCSI target'')))"
    by (simp add: errorMessageUnableLocateIscsiTarget_def)
  from a c show ?thesis by blast
qed

subsection \<open>Multipath devices\<close>

lemma isSupportedDeviceVendor_set: "isSupportedDeviceVendor vs v \<longleftrightarrow> v \<in> set vs"
  by (induction vs) auto

lemma multipathMapsLoop_filter:
  "multipathMapsLoop vendors maps acc =
     acc @ map (\<lambda>m. if Paths m < 1 \<and> PathFaults m > 0 then m\<lparr>IsUnhealthy := True\<rparr> else m)
             (filter (\<lambda>m. length (Vend m) > 0 \<and> isSupportedDeviceVendor vendors (Vend m)) maps)"
  by (induction maps arbitrary: acc) (simp_all add: Let_def)

text \<open>
  C10. When \<open>multipathd\<close> answers and its output decodes, \<open>GetMultipathDevices\<close> returns
  one entry for each map whose vendor is not empty and is a supported vendor, in the order
  of the maps. An entry whose \<open>Paths\<close> is less than 1 and whose \<open>PathFaults\<close> is greater
  than 0 is the map with \<open>IsUnhealthy\<close> set to true; every other entry is the map as it
  was decoded. So for a map decoded with \<open>IsUnhealthy\<close> unset, the entry is unhealthy
  exactly when \<open>Paths < 1\<close> and \<open>PathFaults > 0\<close>.
\<close>

theorem GetMultipathDevices_unhealthy:
  assumes run: "ExecCommandOutput h tr ''multipathd'' [''show'', ''multipaths'', ''json''] = (out, rc, None)"
    and out: "out \<noteq> []"
    and json: "json_Unmarshal out = Inr maps"
    and surfaced: "surfaced = filter (\<lambda>m. length (Vend m) > 0 \<and> isSupportedDeviceVendor vendors (Vend m)) maps"
  shows "\<exists>devices.
           fst (GetMultipathDevices h json_Unmarshal vendors tr) = (devices, None)
         \<and> length devices = length surfaced
         \<and> (\<forall>i < length surfaced.
               devices ! i =
                 (if Paths (surfaced ! i) < 1 \<and> PathFaults (surfaced ! i) > 0
                  then (surfaced ! i)\<lparr>IsUnhealthy := True\<rparr> else surfaced ! i)
             \<and> (\<not> IsUnhealthy (surfaced ! i) \<longrightarrow>
                  (IsUnhealthy (devices ! i) \<longleftrightarrow>
                     Paths (surfaced ! i) < 1 \<and> PathFaults (surfaced ! i) > 0)))"
proof -
  let ?mark = "\<lambda>m. if Paths m < 1 \<and> PathFaults m > 0 then m\<lparr>IsUnhealthy := True\<rparr> else m"
  have "fst (GetMultipathDevices h json_Unmarshal vendors tr) = (map ?mark surfaced, None)"
    using run out json surfaced
    by (simp add: GetMultipathDevices_def multipathMapsLoop_filter)
  moreover have "length (map ?mark surfaced) = length surfaced" by simp
  moreover have "\<forall>i < length surfaced.
               map ?mark surfaced ! i =
                 (if Paths (surfaced ! i) < 1 \<and> PathFaults (surfaced ! i) > 0
                  then (surfaced ! i)\<lparr>IsUnhealthy := True\<rparr> else surfaced ! i)
             \<and> (\<not> IsUnhealthy (surfaced ! i) \<longrightarrow>
                  (IsUnhealthy (map ?mark surfaced ! i) \<longleftrightarrow>
                     Paths (surfaced ! i) < 1 \<and> PathFaults (surfaced ! i) > 0))"
    by simp
  ultimately show ?thesis by blast
qed

theorem GetMultipathDevices_unhealthy_witness:
  "fst (GetMultipathDevices (printingHost ''{\"maps\": []}'') (\<lambda>out. Inr demoMaps) [''Nimble'', ''3PARdata''] [])
     = ([\<lparr>md_Name = ''mpatha'', Vend = ''Nimble'', Paths = 0, PathFaults = 2, PathGroups = [],
          IsUnhealthy = True\<rparr>,
         \<lparr>md_Name = ''mpathb'', Vend = ''Nimble'', Paths = 2, PathFaults = 1, PathGroups = [],
          IsUnhealthy = False\<rparr>], None)"
proof -
  have h1: "ExecCommandOutput (printingHost ''{\"maps\": []}'') [] ''multipathd''
              [''show'', ''multipaths'', ''json''] = (''{\"maps\": []}'', 0, None)"
    by (simp add: printingHost_def)
  have h2: "''{\"maps\": []}'' \<noteq> []" by simp
  have h3: "(\<lambda>out. Inr demoMaps) ''{\"maps\": []}'' = (Inr demoMaps :: string + MultipathDevice list)" by simp
  have h4: "take 2 demoMaps =
              filter (\<lambda>m. length (Vend m) > 0 \<and> isSupportedDeviceVendor [''Nimble'', ''3PARdata''] (Vend m)) demoMaps"
    by (simp add: demoMaps_def)
  from GetMultipathDevices_unhealthy [OF h1 h2 h3 h4]
  obtain devices where d:
    "fst (GetMultipathDevices (printingHost ''{\"maps\": []}'') (\<lambda>out. Inr demoMaps) [''Nimble'', ''3PARdata''] [])
       = (devices, None)"
    "length devices = length (take 2 demoMaps)"
    "\<forall>i < length (take 2 demoMaps).
               devices ! i =
                 (if Paths (take 2 demoMaps ! i) < 1 \<and> PathFaults (take 2 demoMaps ! i) > 0
                  then (take 2 demoMaps ! i)\<lparr>IsUnhealthy := True\<rparr> else take 2 demoMaps ! i)"
    by blast
  have l: "length devices = 2" using d(2) by (simp add: demoMaps_def)
  have "devices ! 0 = \<lparr>md_Name = ''mpatha'', Vend = ''Nimble'', Paths = 0, PathFaults = 2, PathGroups = [],
          IsUnhealthy = True\<rparr>"
    using d(3) by (simp add: demoMaps_def)
  moreover have "devices ! 1 = \<lparr>md_Name = ''mpathb'', Vend = ''Nimble'', Paths = 2, PathFaults = 1, PathGroups = [],
          IsUnhealthy = False\<rparr>"
    using d(3) by (simp add: demoMaps_def)
  ultimately have "devices = [\<lparr>md_Name = ''mpatha'', Vend = ''Nimble'', Paths = 0, PathFaults = 2, PathGroups = [],
          IsUnhealthy = True\<rparr>,
         \<lparr>md_Name = ''mpathb'', Vend = ''Nimble'', Paths = 2, PathFaults = 1, PathGroups = [],
          IsUnhealthy = False\<rparr>]"
    using l by (auto simp: list_eq_iff_nth_eq less_Suc_eq numeral_2_eq_2)
  with d(1) show ?thesis by simp
qed

subsection \<open>Applying recommendations to the configuration tree\<close>

lemma find_pred_cong: "(\<And>x. x \<in> set xs \<Longrightarrow> P x = Q x) \<Longrightarrow> find P xs = find Q xs"
  by (induction xs) auto

lemma find_append_last: "\<not> P a \<Longrightarrow> find P (xs @ [a]) = find P xs"
  by (induction xs) auto

lemma sectionAt_setProperty:
  "sectionAt (setProperty c a key v) x =
     (if x = a then map_option (\<lambda>s. s\<lparr>properties := (properties s)(key \<mapsto> v)\<rparr>) (sectionAt c x)
      else sectionAt c x)"
  by (simp add: sectionAt_def setProperty_def)

lemma sectionName_setProperty [simp]: "sectionName (setProperty c a key v) x = sectionName c x"
  by (simp add: sectionName_def sectionAt_setProperty option.map_comp comp_def)

lemma root_setProperty [simp]: "root (setProperty c a key v) = root c"
  by (simp add: setProperty_def)

lemma GetSection_setProperty [simp]: "GetSection (setProperty c a key v) nm = GetSection c nm"
  by (auto simp: GetSection_def sectionAt_setProperty split: option.splits)

lemma property_setProperty_other:
  "b \<noteq> a \<Longrightarrow> property (setProperty c a key v) b k = property c b k"
  by (simp add: property_def sectionAt_setProperty)

lemma property_setProperty_same:
  "sectionAt c a \<noteq> None \<Longrightarrow> property (setProperty c a key v) a key = v"
  by (auto simp: property_def sectionAt_setProperty)


lemma updateDeviceSection_keeps:
  "GetSection (updateDeviceSection c ds recs) nm = GetSection c nm
   \<and> sectionName (updateDeviceSection c ds recs) x = sectionName c x
   \<and> (b \<noteq> ds \<longrightarrow> property (updateDeviceSection c ds recs) b k = property c b k)"
  by (induction recs arbitrary: c) (simp_all add: property_setProperty_other)

lemma sectionName_Some_valid: "sectionName c a = Some nm \<Longrightarrow> sectionAt c a \<noteq> None"
  by (auto simp: sectionName_def)

lemma find_append_new:
  "(\<And>x. x \<in> set xs \<Longrightarrow> x \<noteq> a \<Longrightarrow> \<not> P x) \<Longrightarrow> P a \<Longrightarrow> find P (xs @ [a]) = Some a"
  by (induction xs) auto

lemma AddSection_facts:
  assumes "AddSection c nm p = Inr (a, c')"
  shows "a = length (sections c)"
    and "root c' = root c"
    and "sectionName c' x = (if x = a then Some nm else sectionName c x)"
    and "property c' x k = property c x k"
    and "sectionAt c' x = None \<longleftrightarrow> x \<noteq> a \<and> sectionAt c x = None"
    and "children (the (sectionAt c' x)) =
           (if x = a then []
            else if x = p then children (the (sectionAt c x)) @ [a]
            else children (the (sectionAt c x)))"
    and "sectionAt c p \<noteq> None"
  using assms
  by (auto simp: AddSection_def Let_def sectionName_def sectionAt_def property_def nth_append
        nth_list_update split: option.splits if_splits)

lemma GetSection_alt:
  "GetSection c nm =
     (if sectionAt c (root c) = None then Inl (''section '' @ nm @ '' not found'')
      else (case find (\<lambda>a. sectionName c a = Some nm) (children (the (sectionAt c (root c)))) of
              None \<Rightarrow> Inl (''section '' @ nm @ '' not found'')
            | Some a \<Rightarrow> Inr a))"
  by (simp add: GetSection_def split: option.splits)

lemma GetSection_AddSection_other:
  assumes add: "AddSection c nm p = Inr (a, c')" and ne: "nm \<noteq> nm'"
  shows "GetSection c' nm' = GetSection c nm'"
proof -
  let ?P = "\<lambda>x. sectionName c x = Some nm'"
  let ?P' = "\<lambda>x. sectionName c' x = Some nm'"
  let ?ch = "children (the (sectionAt c (root c)))"
  have a: "a = length (sections c)" by (rule AddSection_facts(1) [OF add])
  have dangling: "sectionName c a = None"
    by (simp add: a sectionName_def sectionAt_def)
  have same: "?P' = ?P"
    using AddSection_facts(3) [OF add] ne dangling by auto
  have nota: "\<not> ?P a"
    using dangling by simp
  have r: "root c' = root c" by (rule AddSection_facts(2) [OF add])
  have v: "sectionAt c' (root c) = None \<longleftrightarrow> root c \<noteq> a \<and> sectionAt c (root c) = None"
    by (rule AddSection_facts(5) [OF add])
  have ch: "children (the (sectionAt c' (root c))) =
           (if root c = a then [] else if root c = p then ?ch @ [a] else ?ch)"
    by (rule AddSection_facts(6) [OF add])
  show ?thesis
  proof (cases "root c = a")
    case True
    then have "sectionAt c (root c) = None" by (simp add: a sectionAt_def)
    then show ?thesis using ch v True by (simp add: GetSection_alt r)
  next
    case False
    have fa: "find ?P (xs @ [a]) = find ?P xs" for xs
      using nota by (simp add: find_append_last)
    show ?thesis
      using ch v False by (simp add: GetSection_alt [of c'] GetSection_alt [of c] r same fa)
  qed
qed

lemma GetSection_AddSection_new:
  assumes add: "AddSection c nm (root c) = Inr (a, c')" and miss: "GetSection c nm = Inl e"
  shows "GetSection c' nm = Inr a"
proof -
  let ?ch = "children (the (sectionAt c (root c)))"
  have a: "a = length (sections c)" by (rule AddSection_facts(1) [OF add])
  have s: "sectionAt c (root c) \<noteq> None" by (rule AddSection_facts(7) [OF add])
  then have ra: "root c \<noteq> a" by (auto simp: a sectionAt_def split: if_splits)
  have none: "find (\<lambda>x. sectionName c x = Some nm) ?ch = None"
    using miss s by (simp add: GetSection_alt split: option.splits)
  have v: "sectionAt c' (root c) \<noteq> None"
    using AddSection_facts(5) [OF add, of "root c"] s by simp
  have ch: "children (the (sectionAt c' (root c))) = ?ch @ [a]"
    using AddSection_facts(6) [OF add, of "root c"] ra by simp
  have nm: "sectionName c' x = (if x = a then Some nm else sectionName c x)" for x
    by (rule AddSection_facts(3) [OF add])
  have "find (\<lambda>x. sectionName c' x = Some nm) (?ch @ [a]) = Some a"
  proof (rule find_append_new)
    fix x assume "x \<in> set ?ch" "x \<noteq> a"
    then show "sectionName c' x \<noteq> Some nm"
      using none nm [of x] by (auto simp: find_None_iff)
  next
    show "sectionName c' a = Some nm" using nm [of a] by simp
  qed
  then show ?thesis
    using ch v by (simp add: GetSection_alt AddSection_facts(2) [OF add])
qed


lemma GetSection_Inr_name: "GetSection c nm = Inr d \<Longrightarrow> sectionName c d = Some nm"
  by (auto simp: GetSection_def find_Some_iff split: option.splits)

lemma find_multipaths_AddSection:
  assumes "AddSection c nm p = Inr (a, c')" and "nm \<noteq> ''defaults''"
  shows "find_multipaths c' = find_multipaths c"
  using GetSection_AddSection_other [OF assms] AddSection_facts(4) [OF assms(1)]
  by (simp add: find_multipaths_def split: sum.splits)

lemma GetDeviceSection_Inr_name: "GetDeviceSection c dev = Inr ds \<Longrightarrow> sectionName c ds = Some ''device''"
  by (auto simp: GetDeviceSection_def find_Some_iff split: sum.splits option.splits)

lemma deviceSectionFor_facts:
  assumes "deviceSectionFor c dev = Inr (ds, c1)"
  shows "find_multipaths c1 = find_multipaths c" and "sectionName c1 ds = Some ''device''"
proof -
  show "find_multipaths c1 = find_multipaths c"
  proof (cases "GetDeviceSection c dev")
    case (Inr x)
    with assms show ?thesis by (simp add: deviceSectionFor_def)
  next
    case miss: (Inl e)
    show ?thesis
    proof (cases "GetSection c ''devices''")
      case (Inr dss)
      with miss assms have "AddSection c ''device'' dss = Inr (ds, c1)"
        by (simp add: deviceSectionFor_def split: sum.splits)
      then show ?thesis by (rule find_multipaths_AddSection) simp
    next
      case (Inl e')
      with miss assms obtain dss c0 where
        a0: "AddSection c ''devices'' (GetRoot c) = Inr (dss, c0)"
        and a1: "AddSection c0 ''device'' dss = Inr (ds, c1)"
        by (auto simp: deviceSectionFor_def split: sum.splits)
      have "find_multipaths c0 = find_multipaths c"
        by (rule find_multipaths_AddSection [OF a0]) simp
      moreover have "find_multipaths c1 = find_multipaths c0"
        by (rule find_multipaths_AddSection [OF a1]) simp
      ultimately show ?thesis by simp
    qed
  qed
  show "sectionName c1 ds = Some ''device''"
  proof (cases "GetDeviceSection c dev")
    case (Inr x)
    with assms have "x = ds" "c1 = c" by (simp_all add: deviceSectionFor_def)
    with Inr show ?thesis by (simp add: GetDeviceSection_Inr_name)
  next
    case miss: (Inl e)
    with assms obtain dss c0 where "AddSection c0 ''device'' dss = Inr (ds, c1)"
      by (auto simp: deviceSectionFor_def split: sum.splits)
    then show ?thesis using AddSection_facts(3) [of c0 "''device''" dss ds c1 ds] by simp
  qed
qed

lemma find_multipaths_updateDeviceSection:
  assumes "sectionName c ds = Some ''device''"
  shows "find_multipaths (updateDeviceSection c ds recs) = find_multipaths c"
proof (cases "GetSection c ''defaults''")
  case (Inl e)
  then show ?thesis using updateDeviceSection_keeps [of c ds recs "''defaults''"]
    by (simp add: find_multipaths_def split: sum.splits)
next
  case (Inr d)
  then have "sectionName c d = Some ''defaults''" by (rule GetSection_Inr_name)
  with assms have "d \<noteq> ds" by auto
  then show ?thesis
    using Inr updateDeviceSection_keeps [of c ds recs "''defaults''" _ d "''find_multipaths''"]
    by (simp add: find_multipaths_def split: sum.splits)
qed

lemma defaultsSectionFor_facts:
  assumes "defaultsSectionFor c = Inr (d, c3)"
  shows "GetSection c3 ''defaults'' = Inr d"
    and "property c3 d ''find_multipaths'' = find_multipaths c"
    and "sectionAt c3 d \<noteq> None"
proof -
  have all: "GetSection c3 ''defaults'' = Inr d
           \<and> property c3 d ''find_multipaths'' = find_multipaths c
           \<and> sectionAt c3 d \<noteq> None"
  proof (cases "GetSection c ''defaults''")
    case (Inr x)
    with assms have "x = d" "c3 = c" by (simp_all add: defaultsSectionFor_def)
    with Inr show ?thesis
      using GetSection_Inr_name [OF Inr] sectionName_Some_valid [of c x]
      by (simp add: find_multipaths_def split: sum.splits)
  next
    case (Inl e)
    with assms have add: "AddSection c ''defaults'' (root c) = Inr (d, c3)"
      by (simp add: defaultsSectionFor_def GetRoot_def split: sum.splits)
    have g: "GetSection c3 ''defaults'' = Inr d"
      by (rule GetSection_AddSection_new [OF add Inl])
    have d: "d = length (sections c)" by (rule AddSection_facts(1) [OF add])
    have "property c3 d ''find_multipaths'' = property c d ''find_multipaths''"
      by (rule AddSection_facts(4) [OF add])
    also have "\<dots> = []" by (simp add: d property_def sectionAt_def)
    finally have p: "property c3 d ''find_multipaths'' = find_multipaths c"
      using Inl by (simp add: find_multipaths_def split: sum.splits)
    have "sectionAt c3 d \<noteq> None"
      using AddSection_facts(5) [OF add, of d] by simp
    with g p show ?thesis by simp
  qed
  from all show "GetSection c3 ''defaults'' = Inr d" by simp
  from all show "property c3 d ''find_multipaths'' = find_multipaths c" by simp
  from all show "sectionAt c3 d \<noteq> None" by simp
qed

lemma AddSection_succeeds:
  "sectionAt c p \<noteq> None \<Longrightarrow> \<exists>a c'. AddSection c nm p = Inr (a, c')"
  by (auto simp: AddSection_def Let_def)

lemma updateDeviceSection_valid:
  "root (updateDeviceSection c ds recs) = root c
   \<and> (sectionAt (updateDeviceSection c ds recs) x = None \<longleftrightarrow> sectionAt c x = None)"
  by (induction recs arbitrary: c) (simp_all add: sectionAt_setProperty)

lemma deviceSectionFor_succeeds:
  assumes "sectionAt c (root c) \<noteq> None"
  shows "\<exists>ds c1. deviceSectionFor c dev = Inr (ds, c1) \<and> sectionAt c1 (root c1) \<noteq> None"
proof (cases "GetDeviceSection c dev")
  case (Inr ds)
  then show ?thesis using assms by (simp add: deviceSectionFor_def)
next
  case miss: (Inl e)
  show ?thesis
  proof (cases "GetSection c ''devices''")
    case (Inr dss)
    then have "sectionAt c dss \<noteq> None"
      using GetSection_Inr_name sectionName_Some_valid by blast
    then obtain ds c1 where add: "AddSection c ''device'' dss = Inr (ds, c1)"
      using AddSection_succeeds by blast
    have "sectionAt c1 (root c1) \<noteq> None"
      using AddSection_facts(2) [OF add] AddSection_facts(5) [OF add, of "root c"] assms by simp
    then show ?thesis using miss Inr add by (simp add: deviceSectionFor_def)
  next
    case (Inl e')
    obtain dss c0 where a0: "AddSection c ''devices'' (root c) = Inr (dss, c0)"
      using AddSection_succeeds [OF assms] by blast
    have r0: "sectionAt c0 (root c0) \<noteq> None"
      using AddSection_facts(2) [OF a0] AddSection_facts(5) [OF a0, of "root c"] assms by simp
    have "sectionAt c0 dss \<noteq> None"
      using AddSection_facts(5) [OF a0, of dss] by simp
    then obtain ds c1 where a1: "AddSection c0 ''device'' dss = Inr (ds, c1)"
      using AddSection_succeeds by blast
    have "sectionAt c1 (root c1) \<noteq> None"
      using AddSection_facts(2) [OF a1] AddSection_facts(5) [OF a1, of "root c0"] r0 by simp
    then show ?thesis using miss Inl a0 a1 by (simp add: deviceSectionFor_def GetRoot_def)
  qed
qed

lemma defaultsSectionFor_succeeds:
  assumes "sectionAt c (root c) \<noteq> None"
  shows "\<exists>d c3. defaultsSectionFor c = Inr (d, c3)"
proof (cases "GetSection c ''defaults''")
  case (Inr d)
  then show ?thesis by (simp add: defaultsSectionFor_def)
next
  case (Inl e)
  obtain d c3 where "AddSection c ''defaults'' (root c) = Inr (d, c3)"
    using AddSection_succeeds [OF assms] by blast
  then show ?thesis using Inl by (simp add: defaultsSectionFor_def GetRoot_def)
qed

lemma saved_tree_find_multipaths:
  assumes dev: "deviceSectionFor config device = Inr (ds, c1)"
    and def: "defaultsSectionFor (updateDeviceSection c1 ds recommendations) = Inr (d, c3)"
    and saved: "saved =
          (if property c3 d ''find_multipaths'' = ''yes'' \<or> property c3 d ''find_multipaths'' = []
           then setProperty c3 d ''find_multipaths'' ''no'' else c3)"
  shows "GetSection saved ''defaults'' = Inr d"
    and "find_multipaths saved =
           (if find_multipaths config = ''yes'' \<or> find_multipaths config = [] then ''no''
            else find_multipaths config)"
proof -
  have v: "property c3 d ''find_multipaths'' = find_multipaths config"
    using defaultsSectionFor_facts(2) [OF def]
      find_multipaths_updateDeviceSection [OF deviceSectionFor_facts(2) [OF dev]]
      deviceSectionFor_facts(1) [OF dev]
    by simp
  have g3: "GetSection c3 ''defaults'' = Inr d" by (rule defaultsSectionFor_facts(1) [OF def])
  have valid: "sectionAt c3 d \<noteq> None" by (rule defaultsSectionFor_facts(3) [OF def])
  show g: "GetSection saved ''defaults'' = Inr d"
    using saved g3 by simp
  have "find_multipaths saved = property saved d ''find_multipaths''"
    using g by (simp add: find_multipaths_def split: sum.splits)
  also have "\<dots> = (if find_multipaths config = ''yes'' \<or> find_multipaths config = [] then ''no''
            else find_multipaths config)"
    using saved v property_setProperty_same [OF valid] by simp
  finally show "find_multipaths saved =
           (if find_multipaths config = ''yes'' \<or> find_multipaths config = [] then ''no''
            else find_multipaths config)" .
qed

text \<open>
  C8. When \<open>/etc/multipath.conf\<close> parses to a tree (with its root),
  \<open>setMultipathRecommendations\<close> does not fail before it saves: it hands a tree to
  \<open>SaveConfig\<close>, and returns the error of \<open>SaveConfig\<close> or, when there is none, success.
  The tree it saves has a defaults section, created when the parsed file had none, and
  the \<open>find_multipaths\<close> property of that section is \<open>no\<close> if the property was absent (or
  empty, or the defaults section was absent) or \<open>yes\<close> in the parsed file, and is the
  value of the parsed file otherwise.
\<close>

theorem setMultipathRecommendations_find_multipaths:
  assumes parse: "ParseConfig f = Inr config"
    and root: "sectionAt config (root config) \<noteq> None"
  shows "\<exists>saved.
           setMultipathRecommendations f recommendations device =
             (case SaveConfig f saved of
                None \<Rightarrow> (None, Some saved)
              | Some err \<Rightarrow> (Some err, None))
         \<and> (\<exists>defaultsSection. GetSection saved ''defaults'' = Inr defaultsSection)
         \<and> find_multipaths saved =
             (if find_multipaths config = ''yes'' \<or> find_multipaths config = [] then ''no''
              else find_multipaths config)"
proof -
  obtain ds c1 where dev: "deviceSectionFor config device = Inr (ds, c1)"
    and r1: "sectionAt c1 (root c1) \<noteq> None"
    using deviceSectionFor_succeeds [OF root] by blast
  define c2 where "c2 = updateDeviceSection c1 ds recommendations"
  have "sectionAt c2 (root c2) \<noteq> None"
    using updateDeviceSection_valid [of c1 ds recommendations "root c1"] r1 by (simp add: c2_def)
  then obtain d c3 where def: "defaultsSectionFor c2 = Inr (d, c3)"
    using defaultsSectionFor_succeeds by blast
  define saved where "saved =
          (if property c3 d ''find_multipaths'' = ''yes'' \<or> property c3 d ''find_multipaths'' = []
           then setProperty c3 d ''find_multipaths'' ''no'' else c3)"
  have run: "setMultipathRecommendations f recommendations device =
             (case SaveConfig f saved of
                None \<Rightarrow> (None, Some saved)
              | Some err \<Rightarrow> (Some err, None))"
    using parse dev def
    by (simp add: setMultipathRecommendations_def Let_def c2_def [symmetric] saved_def
          split: option.splits)
  have g: "GetSection saved ''defaults'' = Inr d"
    by (rule saved_tree_find_multipaths(1) [OF dev def [unfolded c2_def] saved_def])
  have fm: "find_multipaths saved =
             (if find_multipaths config = ''yes'' \<or> find_multipaths config = [] then ''no''
              else find_multipaths config)"
    by (rule saved_tree_find_multipaths(2) [OF dev def [unfolded c2_def] saved_def])
  have "setMultipathRecommendations f recommendations device =
             (case SaveConfig f saved of
                None \<Rightarrow> (None, Some saved)
              | Some err \<Rightarrow> (Some err, None))
         \<and> (\<exists>defaultsSection. GetSection saved ''defaults'' = Inr defaultsSection)
         \<and> find_multipaths saved =
             (if find_multipaths config = ''yes'' \<or> find_multipaths config = [] then ''no''
              else find_multipaths config)"
    using run g fm by (intro conjI exI)
  then show ?thesis by (intro exI)
qed

theorem setMultipathRecommendations_find_multipaths_witness:
  "find_multipaths bareConfig = []
   \<and> GetSection bareConfig ''defaults'' = Inl ''section defaults not found''
   \<and> (\<exists>saved. setMultipathRecommendations bareConffile [demoRecommendation] ''Nimble''
                 = (None, Some saved)
              \<and> find_multipaths saved = ''no'')
   \<and> find_multipaths demoConfig = ''yes''
   \<and> (\<exists>saved. setMultipathRecommendations demoConffile [demoRecommendation] ''Nimble''
                 = (None, Some saved)
              \<and> find_multipaths saved = ''no'')
   \<and> find_multipaths greedyConfig = ''greedy''
   \<and> (\<exists>saved. setMultipathRecommendations greedyConffile [demoRecommendation] ''Nimble''
                 = (None, Some saved)
              \<and> find_multipaths saved = ''greedy'')"
proof -
  have pb: "ParseConfig bareConffile = Inr bareConfig" by (simp add: bareConffile_def)
  have rb: "sectionAt bareConfig (root bareConfig) \<noteq> None"
    by (simp add: sectionAt_def bareConfig_def)
  have gb: "GetSection bareConfig ''defaults'' = Inl ''section defaults not found''"
    by (simp add: GetSection_def sectionAt_def bareConfig_def)
  have fb: "find_multipaths bareConfig = []"
    by (simp add: find_multipaths_def gb)
  have sb: "SaveConfig bareConffile c = None" for c by (simp add: bareConffile_def)
  from setMultipathRecommendations_find_multipaths [OF pb rb, of "[demoRecommendation]" "''Nimble''"]
  have b: "\<exists>saved. setMultipathRecommendations bareConffile [demoRecommendation] ''Nimble''
                 = (None, Some saved)
              \<and> find_multipaths saved = ''no''"
    by (auto simp only: sb fb option.case if_True simp_thms)
  have pd: "ParseConfig demoConffile = Inr demoConfig" by (simp add: demoConffile_def)
  have rd: "sectionAt demoConfig (root demoConfig) \<noteq> None"
    by (simp add: sectionAt_def demoConfig_def)
  have fd: "find_multipaths demoConfig = ''yes''"
    by (simp add: find_multipaths_def GetSection_def sectionAt_def sectionName_def property_def
          demoConfig_def)
  have sd: "SaveConfig demoConffile c = None" for c by (simp add: demoConffile_def)
  from setMultipathRecommendations_find_multipaths [OF pd rd, of "[demoRecommendation]" "''Nimble''"]
  have d: "\<exists>saved. setMultipathRecommendations demoConffile [demoRecommendation] ''Nimble''
                 = (None, Some saved)
              \<and> find_multipaths saved = ''no''"
    by (auto simp only: sd fd option.case if_True simp_thms)
  have pg: "ParseConfig greedyConffile = Inr greedyConfig" by (simp add: greedyConffile_def)
  have rg: "sectionAt greedyConfig (root greedyConfig) \<noteq> None"
    by (simp add: sectionAt_def greedyConfig_def)
  have fg: "find_multipaths greedyConfig = ''greedy''"
    by (simp add: find_multipaths_def GetSection_def sectionAt_def sectionName_def property_def
          greedyConfig_def)
  have ng: "''greedy'' \<noteq> ''yes''" "''greedy'' \<noteq> []" by simp_all
  have sg: "SaveConfig greedyConffile c = None" for c by (simp add: greedyConffile_def)
  from setMultipathRecommendations_find_multipaths [OF pg rg, of "[demoRecommendation]" "''Nimble''"]
  have g: "\<exists>saved. setMultipathRecommendations greedyConffile [demoRecommendation] ''Nimble''
                 = (None, Some saved)
              \<and> find_multipaths saved = ''greedy''"
    using ng by (auto simp only: sg fg option.case if_False simp_thms)
  from fb gb b fd d fg g show ?thesis by (intro conjI)
qed

subsection \<open>Computing recommendations\<close>

lemma greedy_run:
  assumes "\<forall>c \<in> set xs. p c" and "ys = [] \<or> \<not> p (hd ys)" and "k ys = Some r"
  shows "greedy p k (xs @ ys) = Some r"
  using assms
proof (induction xs)
  case Nil
  then show ?case by (cases ys) auto
next
  case (Cons x xs)
  then show ?case by simp
qed

lemma lazy_run:
  assumes "\<forall>c \<in> set xs. p c"
    and "\<And>i. i < length xs \<Longrightarrow> k (drop i xs @ ys) = None"
    and "k ys = Some r"
  shows "lazy p k (xs @ ys) = Some r"
  using assms
proof (induction xs)
  case Nil
  then show ?case by (cases ys) auto
next
  case (Cons x xs)
  have here: "k (x # xs @ ys) = None"
    using Cons.prems(2) [of 0] by simp
  have later: "\<And>i. i < length xs \<Longrightarrow> k (drop i xs @ ys) = None"
    using Cons.prems(2) [of "Suc i" for i] by simp
  have "lazy p k (xs @ ys) = Some r"
    using Cons.IH Cons.prems(1,3) later by simp
  then show ?case using here Cons.prems(1) by simp
qed

text \<open>
  What the pattern of a parameter line extracts from a line of the usual form: white
  space, a name without white space, white space, and a value that does not start with
  white space. The name is the name and the value is the rest of the line.
\<close>

lemma multipathParamPattern_line:
  assumes ws1: "\<forall>c \<in> set ws1. inClass Space c"
    and nm: "\<forall>c \<in> set nm. \<not> inClass Space c"
    and ws2: "ws2 \<noteq> []" "\<forall>c \<in> set ws2. inClass Space c"
    and v: "v = [] \<or> \<not> inClass Space (hd v)" "\<forall>c \<in> set v. inClass Dot c"
    and nm1: "nm \<noteq> []"
  shows "FindStringSubmatch multipathParamPattern (ws1 @ nm @ ws2 @ v) =
           Some [(''value'', v), (''name'', nm)]"
proof -
  let ?rest = "nm @ ws2 @ v"
  let ?tail = "[Plus Space, Open ''value'', Star Dot, Close ''value'']"
  have nmdot: "\<forall>c \<in> set nm. inClass Dot c"
    using nm by auto
  \<comment> \<open>the value, once the white space after the name has been taken\<close>
  have val: "matchItems [Open ''value'', Star Dot, Close ''value''] v gs =
               Some (closeGroup ''value'' [] ((''value'', v) # gs))" for gs
    using greedy_run [of v "inClass Dot" "[]"
            "\<lambda>s'. matchItems [Close ''value''] s' ((''value'', v) # gs)"] v(2)
    by simp
  obtain w ws where w: "ws2 = w # ws" using ws2(1) by (cases ws2) auto
  have plus: "matchItems ?tail (ws2 @ v) gs = Some (closeGroup ''value'' [] ((''value'', v) # gs))" for gs
    using greedy_run [of ws "inClass Space" v
            "\<lambda>s'. matchItems [Open ''value'', Star Dot, Close ''value''] s' gs"] ws2(2) v(1) val w
    by simp
  \<comment> \<open>inside the name, the white space that must follow is not there yet\<close>
  have inname: "matchItems (Close ''name'' # ?tail) (drop i nm @ ws2 @ v) gs = None"
    if "i < length nm" for i gs
  proof -
    from that obtain c cs where c: "drop i nm = c # cs"
      by (cases "drop i nm") auto
    then have "c \<in> set nm" by (metis in_set_dropD list.set_intros(1))
    with nm have "\<not> inClass Space c" by blast
    with c show ?thesis by simp
  qed
  have name: "matchItems (Open ''name'' # LazyStar Dot # Close ''name'' # ?tail) ?rest [] =
                Some [(''value'', v), (''name'', nm)]"
  proof -
    let ?k = "\<lambda>s'. matchItems (Close ''name'' # ?tail) s' [(''name'', ?rest)]"
    have "?k (ws2 @ v) = Some [(''value'', v), (''name'', nm)]"
      using plus by (simp add: closeGroup_def)
    then have "lazy (inClass Dot) ?k (nm @ ws2 @ v) = Some [(''value'', v), (''name'', nm)]"
      using lazy_run [of nm "inClass Dot" ?k "ws2 @ v"] nmdot inname by simp
    then show ?thesis by simp
  qed
  have first: "?rest = [] \<or> \<not> inClass Space (hd ?rest)"
    using nm nm1 by (cases nm) auto
  have "matchItems multipathParamPattern (ws1 @ ?rest) [] = Some [(''value'', v), (''name'', nm)]"
    using greedy_run [of ws1 "inClass Space" ?rest
            "\<lambda>s'. matchItems (Open ''name'' # LazyStar Dot # Close ''name'' # ?tail) s' []"]
      ws1 first name
    by (simp add: multipathParamPattern_def)
  then show ?thesis
    by (cases "ws1 @ ?rest") simp_all
qed

lemma settingsLoop_found:
  "liveValue key settings = Some v \<Longrightarrow> settingsLoop key settings vars = (True, key, v)"
proof (induction settings arbitrary: vars)
  case Nil
  then show ?case by (simp add: liveValue_def)
next
  case (Cons l ls)
  obtain pk pv where vars: "vars = (pk, pv)" by (cases vars)
  show ?case
  proof (cases "l \<noteq> [] \<and> (case FindStringSubmatch multipathParamPattern l of
                                None \<Rightarrow> False | Some result \<Rightarrow> submatch result ''name'' = key)")
    case True
    then obtain result where r: "FindStringSubmatch multipathParamPattern l = Some result"
      "submatch result ''name'' = key" "l \<noteq> []"
      by (auto split: option.splits)
    with Cons.prems have "v = submatch result ''value''"
      by (simp add: liveValue_def)
    with r vars show ?thesis by simp
  next
    case False
    with Cons.prems have lv: "liveValue key ls = Some v"
      by (simp add: liveValue_def)
    from False vars Cons.IH [OF lv] show ?thesis
      by (auto split: option.splits)
  qed
qed

lemma settingsLoop_missing:
  "liveValue key settings = None \<Longrightarrow> fst (settingsLoop key settings vars) = False"
proof (induction settings arbitrary: vars)
  case Nil
  then show ?case by (cases vars) simp
next
  case (Cons l ls)
  obtain pk pv where vars: "vars = (pk, pv)" by (cases vars)
  from Cons.prems have nothere:
    "\<not> (l \<noteq> [] \<and> (case FindStringSubmatch multipathParamPattern l of
                                None \<Rightarrow> False | Some result \<Rightarrow> submatch result ''name'' = key))"
    by (auto simp: liveValue_def split: if_splits)
  with Cons.prems have lv: "liveValue key ls = None"
    by (simp add: liveValue_def)
  from nothere vars Cons.IH [OF lv] show ?case
    by (auto split: option.splits)
qed

lemma keysLoop_map:
  assumes "index < length (descriptionMap t)" and "index < length (severityMap t)"
  shows "\<exists>vars'. keysLoop t index settings keys vars acc =
           Return (acc @ map (\<lambda>key. recommendationFor t index key (liveValue key settings)) keys, vars')"
proof (induction keys arbitrary: vars acc)
  case Nil
  show ?case by simp
next
  case (Cons key keys)
  obtain found pk pv where sl: "settingsLoop key settings vars = (found, pk, pv)"
    by (cases "settingsLoop key settings vars")
  have step: "(if found
                then getMultipathDeviceParamRecommendation t pk (strings_TrimSpace pv)
                       (mapValue (deviceMap (recommendationMap t ! index)) key)
                       (mapValue (deviceMap (descriptionMap t ! index)) key)
                       (mapValue (deviceMap (severityMap t ! index)) key)
                else getMultipathDeviceParamRecommendation t key []
                       (mapValue (deviceMap (recommendationMap t ! index)) key)
                       (mapValue (deviceMap (descriptionMap t ! index)) key)
                       (mapValue (deviceMap (severityMap t ! index)) key))
              = recommendationFor t index key (liveValue key settings)"
  proof (cases "liveValue key settings")
    case None
    then show ?thesis
      using settingsLoop_missing [OF None, of vars] sl by (simp add: recommendationFor_def)
  next
    case (Some v)
    then show ?thesis
      using settingsLoop_found [OF Some, of vars] sl by (simp add: recommendationFor_def)
  qed
  obtain vars' where
    "keysLoop t index settings keys (pk, pv)
       (acc @ [recommendationFor t index key (liveValue key settings)]) =
     Return ((acc @ [recommendationFor t index key (liveValue key settings)])
               @ map (\<lambda>key. recommendationFor t index key (liveValue key settings)) keys, vars')"
    using Cons.IH by blast
  then show ?case
    using assms sl step by (simp add: Let_def)
qed

lemma deviceTypesLoop_map:
  assumes "index + remaining \<le> length (descriptionMap t)"
    and "index + remaining \<le> length (severityMap t)"
  shows "deviceTypesLoop t keyOrder settings index remaining vars acc =
           Return (acc @ map (\<lambda>i. \<lparr>DeviceType = tm_DeviceType (recommendationMap t ! i),
                                   RecomendArray =
                                     map (\<lambda>key. recommendationFor t i key (liveValue key settings))
                                       (keyOrder i)\<rparr>)
                              [index ..< index + remaining])"
  using assms
proof (induction remaining arbitrary: index vars acc)
  case 0
  show ?case by simp
next
  case (Suc remaining)
  have a: "index < length (descriptionMap t)" "index < length (severityMap t)"
    using Suc.prems by simp_all
  obtain vars' where k: "keysLoop t index settings (keyOrder index) vars [] =
           Return (map (\<lambda>key. recommendationFor t index key (liveValue key settings)) (keyOrder index), vars')"
    using keysLoop_map [OF a, of settings "keyOrder index" vars "[]"] by auto
  have "Suc index + remaining \<le> length (descriptionMap t)" "Suc index + remaining \<le> length (severityMap t)"
    using Suc.prems by simp_all
  from Suc.IH [OF this, of vars']
  have rest: "\<And>acc. deviceTypesLoop t keyOrder settings (Suc index) remaining vars' acc =
           Return (acc @ map (\<lambda>i. \<lparr>DeviceType = tm_DeviceType (recommendationMap t ! i),
                                   RecomendArray =
                                     map (\<lambda>key. recommendationFor t i key (liveValue key settings))
                                       (keyOrder i)\<rparr>)
                              [Suc index ..< Suc index + remaining])"
    by simp
  have u: "[index ..< index + Suc remaining] = index # [Suc index ..< Suc index + remaining]"
    using upt_conv_Cons [of index "index + Suc remaining"] by simp
  show ?case
    unfolding u using k rest by simp
qed

lemma getMultipathDeviceScopeRecommendations_map:
  assumes "length (recommendationMap t) \<le> length (descriptionMap t)"
    and "length (recommendationMap t) \<le> length (severityMap t)"
  shows "getMultipathDeviceScopeRecommendations t keyOrder deviceBlock =
           Return (map (\<lambda>i. \<lparr>DeviceType = tm_DeviceType (recommendationMap t ! i),
                             RecomendArray =
                               map (\<lambda>key. recommendationFor t i key
                                            (liveValue key (strings_Split_nl deviceBlock)))
                                 (keyOrder i)\<rparr>)
                     [0 ..< length (recommendationMap t)])"
  using deviceTypesLoop_map [of 0 "length (recommendationMap t)" t keyOrder
          "strings_Split_nl deviceBlock" "([], [])" "[]"] assms
  by (simp add: getMultipathDeviceScopeRecommendations_def)


lemma recommendationFor_fields:
  "Parameter (recommendationFor t index key live) = key"
  "Recommendation (recommendationFor t index key live) =
     mapValue (deviceMap (recommendationMap t ! index)) key"
  "Value (recommendationFor t index key live) =
     (case live of None \<Rightarrow> [] | Some paramValue \<Rightarrow> strings_TrimSpace paramValue)"
  "CompliantStatus (recommendationFor t index key live) =
     (if (case live of None \<Rightarrow> [] | Some paramValue \<Rightarrow> strings_TrimSpace paramValue)
           = mapValue (deviceMap (recommendationMap t ! index)) key
         \<or> removeQuotes 2 (case live of None \<Rightarrow> [] | Some paramValue \<Rightarrow> strings_TrimSpace paramValue)
           = mapValue (deviceMap (recommendationMap t ! index)) key
      then Recommended else NotRecommended)"
  by (simp_all add: recommendationFor_def getMultipathDeviceParamRecommendation_def)

text \<open>
  C6, as the spec states it, fails: for the line \<open>no_path_retry 3"0"\<close> and the
  recommended value \<open>30\<close> the verdict of the code is \<open>Recommended\<close>, although the live
  value \<open>3"0"\<close>, trimmed and with the quotes around it stripped (it has none around it),
  is not \<open>30\<close>.
\<close>

theorem verdict_quotes_counterexample:
  "getMultipathDeviceScopeRecommendations demoTemplates demoKeyOrder ''no_path_retry 3\"0\"'' =
     Return [\<lparr>DeviceType = ''Nimble'',
              RecomendArray =
                [\<lparr>ID = ''multipathdeviceno_path_retry'', Category = Multipath,
                  Level = ''critical'', Description = ''retries'',
                  Parameter = ''no_path_retry'', Value = ''3\"0\"'',
                  Recommendation = ''30'', CompliantStatus = Recommended,
                  Device = ''all'', FsType = [], Vendor = []\<rparr>]\<rparr>]
   \<and> liveValue ''no_path_retry'' (strings_Split_nl ''no_path_retry 3\"0\"'') = Some ''3\"0\"''
   \<and> specVerdict ''30'' ''3\"0\"'' = NotRecommended"
  by code_simp

text \<open>
  C6 (amended). \<open>getMultipathDeviceScopeRecommendations\<close> emits, for each device type, one
  recommendation for each parameter of its template, in the order in which the parameters
  are visited. The recommendation for a parameter with recommended value \<open>V\<close> names the
  parameter and \<open>V\<close>. When the device block has a line for the parameter, its current
  value is the value of the first such line with white space trimmed, and it is
  \<open>Recommended\<close> exactly when that current value is \<open>V\<close>, or is \<open>V\<close> once its first two
  double quotes, wherever they are, have been removed; it is \<open>NotRecommended\<close> otherwise.
  When the device block has no line for the parameter, the current value is empty and the
  verdict is \<open>NotRecommended\<close>, unless \<open>V\<close> is itself empty.
\<close>

theorem recommendation_verdict:
  assumes "length (recommendationMap t) \<le> length (descriptionMap t)"
    and "length (recommendationMap t) \<le> length (severityMap t)"
    and "index < length (recommendationMap t)"
    and "j < length (keyOrder index)"
    and "key = keyOrder index ! j"
    and "V = mapValue (deviceMap (recommendationMap t ! index)) key"
  shows "\<exists>recs r.
           getMultipathDeviceScopeRecommendations t keyOrder deviceBlock = Return recs
         \<and> length recs = length (recommendationMap t)
         \<and> length (RecomendArray (recs ! index)) = length (keyOrder index)
         \<and> r = RecomendArray (recs ! index) ! j
         \<and> Parameter r = key
         \<and> Recommendation r = V
         \<and> (case liveValue key (strings_Split_nl deviceBlock) of
               Some live \<Rightarrow>
                 Value r = strings_TrimSpace live
                 \<and> CompliantStatus r =
                     (if strings_TrimSpace live = V \<or> removeQuotes 2 (strings_TrimSpace live) = V
                      then Recommended else NotRecommended)
             | None \<Rightarrow>
                 Value r = []
                 \<and> CompliantStatus r = (if V = [] then Recommended else NotRecommended))"
proof -
  define settings where "settings = strings_Split_nl deviceBlock"
  define recs where
    "recs = map (\<lambda>i. \<lparr>DeviceType = tm_DeviceType (recommendationMap t ! i),
                             RecomendArray =
                               map (\<lambda>key. recommendationFor t i key (liveValue key settings))
                                 (keyOrder i)\<rparr>)
                     [0 ..< length (recommendationMap t)]"
  define r where "r = recommendationFor t index key (liveValue key settings)"
  have run: "getMultipathDeviceScopeRecommendations t keyOrder deviceBlock = Return recs"
    unfolding recs_def settings_def
    by (rule getMultipathDeviceScopeRecommendations_map [OF assms(1,2)])
  have len: "length recs = length (recommendationMap t)"
    by (simp add: recs_def)
  have arr: "RecomendArray (recs ! index) =
               map (\<lambda>key. recommendationFor t index key (liveValue key settings)) (keyOrder index)"
    using assms(3) by (simp add: recs_def)
  have l2: "length (RecomendArray (recs ! index)) = length (keyOrder index)"
    by (simp add: arr)
  have rj: "r = RecomendArray (recs ! index) ! j"
    using assms(4,5) by (simp add: arr r_def)
  have p1: "Parameter r = key"
    by (simp add: r_def recommendationFor_fields)
  have p2: "Recommendation r = V"
    by (simp add: r_def recommendationFor_fields assms(6))
  have p3: "(case liveValue key settings of
               Some live \<Rightarrow>
                 Value r = strings_TrimSpace live
                 \<and> CompliantStatus r =
                     (if strings_TrimSpace live = V \<or> removeQuotes 2 (strings_TrimSpace live) = V
                      then Recommended else NotRecommended)
             | None \<Rightarrow>
                 Value r = []
                 \<and> CompliantStatus r = (if V = [] then Recommended else NotRecommended))"
  proof (cases "liveValue key settings")
    case None
    have "([] = V) = (V = [])" by auto
    then show ?thesis
      using None assms(6) by (simp add: r_def recommendationFor_fields)
  next
    case (Some live)
    then show ?thesis
      using assms(6) by (simp add: r_def recommendationFor_fields)
  qed
  have "getMultipathDeviceScopeRecommendations t keyOrder deviceBlock = Return recs
         \<and> length recs = length (recommendationMap t)
         \<and> length (RecomendArray (recs ! index)) = length (keyOrder index)
         \<and> r = RecomendArray (recs ! index) ! j
         \<and> Parameter r = key
         \<and> Recommendation r = V
         \<and> (case liveValue key (strings_Split_nl deviceBlock) of
               Some live \<Rightarrow>
                 Value r = strings_TrimSpace live
                 \<and> CompliantStatus r =
                     (if strings_TrimSpace live = V \<or> removeQuotes 2 (strings_TrimSpace live) = V
                      then Recommended else NotRecommended)
             | None \<Rightarrow>
                 Value r = []
                 \<and> CompliantStatus r = (if V = [] then Recommended else NotRecommended))"
    using run len l2 rj p1 p2 p3 unfolding settings_def by (intro conjI)
  then show ?thesis by (intro exI)
qed

theorem recommendation_verdict_witness:
  "(\<exists>recs. getMultipathDeviceScopeRecommendations demoTemplates demoKeyOrder
             ''no_path_retry \"30\"'' = Return recs
          \<and> Value (RecomendArray (recs ! 0) ! 0) = ''\"30\"''
          \<and> CompliantStatus (RecomendArray (recs ! 0) ! 0) = Recommended)
   \<and> (\<exists>recs. getMultipathDeviceScopeRecommendations demoTemplates demoKeyOrder
             ''vendor \"Nimble\"'' = Return recs
          \<and> Value (RecomendArray (recs ! 0) ! 0) = []
          \<and> CompliantStatus (RecomendArray (recs ! 0) ! 0) = NotRecommended)"
proof -
  have h1: "length (recommendationMap demoTemplates) \<le> length (descriptionMap demoTemplates)"
    by (simp add: demoTemplates_def)
  have h2: "length (recommendationMap demoTemplates) \<le> length (severityMap demoTemplates)"
    by (simp add: demoTemplates_def)
  have h3: "0 < length (recommendationMap demoTemplates)"
    by (simp add: demoTemplates_def)
  have h4: "0 < length (demoKeyOrder 0)"
    by (simp add: demoKeyOrder_def)
  have h5: "''no_path_retry'' = demoKeyOrder 0 ! 0"
    by (simp add: demoKeyOrder_def)
  have h6: "''30'' = mapValue (deviceMap (recommendationMap demoTemplates ! 0)) ''no_path_retry''"
    by (simp add: demoTemplates_def mapValue_def)
  have l1: "liveValue ''no_path_retry'' (strings_Split_nl ''no_path_retry \"30\"'') = Some ''\"30\"''"
    by code_simp
  have l2: "liveValue ''no_path_retry'' (strings_Split_nl ''vendor \"Nimble\"'') = None"
    by code_simp
  have t1: "strings_TrimSpace ''\"30\"'' = ''\"30\"''" by code_simp
  have q1: "removeQuotes 2 ''\"30\"'' = ''30''" by code_simp
  from recommendation_verdict [where t = demoTemplates and index = 0 and j = 0
         and keyOrder = demoKeyOrder and key = "''no_path_retry''" and V = "''30''"
         and deviceBlock = "''no_path_retry \"30\"''", OF h1 h2 h3 h4 h5 h6] l1 t1 q1
  have a: "\<exists>recs. getMultipathDeviceScopeRecommendations demoTemplates demoKeyOrder
             ''no_path_retry \"30\"'' = Return recs
          \<and> Value (RecomendArray (recs ! 0) ! 0) = ''\"30\"''
          \<and> CompliantStatus (RecomendArray (recs ! 0) ! 0) = Recommended"
    by auto
  from recommendation_verdict [where t = demoTemplates and index = 0 and j = 0
         and keyOrder = demoKeyOrder and key = "''no_path_retry''" and V = "''30''"
         and deviceBlock = "''vendor \"Nimble\"''", OF h1 h2 h3 h4 h5 h6] l2
  have b: "\<exists>recs. getMultipathDeviceScopeRecommendations demoTemplates demoKeyOrder
             ''vendor \"Nimble\"'' = Return recs
          \<and> Value (RecomendArray (recs ! 0) ! 0) = []
          \<and> CompliantStatus (RecomendArray (recs ! 0) ! 0) = NotRecommended"
    by auto
  from a b show ?thesis by blast
qed

text \<open>
  C7 fails on the code. \<open>GetMultipathRecommendations\<close> ranges over the map
  \<open>deviceBlockPattern\<close> and each round overwrites the recommendations of the round before,
  so it returns those of the pattern that \<open>range\<close> visits last, and Go does not fix the
  order of \<open>range\<close> over a map. On a \<open>multipath.conf\<close> with a device block for Nimble that
  is compliant, and none for 3PAR, a call that visits \<open>Nimble\<close> last reports the parameter
  as \<open>Recommended\<close> with its current value, and a call that visits \<open>3par\<close> last reports
  it as \<open>NotRecommended\<close> with an empty current value.
\<close>

theorem GetMultipathRecommendations_pattern_order:
  "GetMultipathRecommendations demoTunehost demoTemplates demoKeyOrder [''3par'', ''Nimble''] =
     Return ([\<lparr>DeviceType = ''Nimble'',
               RecomendArray =
                 [\<lparr>ID = ''multipathdeviceno_path_retry'', Category = Multipath,
                   Level = ''critical'', Description = ''retries'',
                   Parameter = ''no_path_retry'', Value = ''30'',
                   Recommendation = ''30'', CompliantStatus = Recommended,
                   Device = ''all'', FsType = [], Vendor = []\<rparr>]\<rparr>], None)
   \<and> GetMultipathRecommendations demoTunehost demoTemplates demoKeyOrder [''Nimble'', ''3par''] =
     Return ([\<lparr>DeviceType = ''Nimble'',
               RecomendArray =
                 [\<lparr>ID = ''multipathdeviceno_path_retry'', Category = Multipath,
                   Level = ''critical'', Description = ''retries'',
                   Parameter = ''no_path_retry'', Value = [],
                   Recommendation = ''30'', CompliantStatus = NotRecommended,
                   Device = ''all'', FsType = [], Vendor = []\<rparr>]\<rparr>], None)"
  by code_simp

end
